theory Spec2Isabelle
  imports Main "HOL-Library.AList"
begin

section \<open>Data model\<close>

text \<open>
  Modelled from the spec: the struct declarations \<^verbatim>\<open>types.Service\<close> and
  \<^verbatim>\<open>types.Destination\<close> live in package \<^verbatim>\<open>api/types\<close>, which is not among the
  sources. The fields are the attributes section 3 lists (name, host, port, protocol,
  scheduling method, inlined destinations; name, host, port, weight, mode, service-id);
  the sources read \<^verbatim>\<open>Name\<close>, \<^verbatim>\<open>Host\<close>, \<^verbatim>\<open>Port\<close>, \<^verbatim>\<open>Protocol\<close>, \<^verbatim>\<open>Destinations\<close> and
  \<^verbatim>\<open>ServiceId\<close>. No arithmetic is done on ports or weights, so they are plain numbers.
\<close>

record destination =
  dst_Name :: string
  dst_Host :: string
  dst_Port :: nat
  dst_Weight :: int
  dst_Mode :: string
  dst_ServiceId :: string

record service =
  svc_Name :: string
  svc_Host :: string
  svc_Port :: nat
  svc_Protocol :: string
  svc_Scheduler :: string
  svc_Destinations :: "destination list"

text \<open>Go's zero values: what indexing a map returns for a key that is not stored.\<close>

definition zero_Destination :: destination where
  "zero_Destination =
     \<lparr>dst_Name = [], dst_Host = [], dst_Port = 0, dst_Weight = 0, dst_Mode = [],
      dst_ServiceId = []\<rparr>"

definition zero_Service :: service where
  "zero_Service =
     \<lparr>svc_Name = [], svc_Host = [], svc_Port = 0, svc_Protocol = [], svc_Scheduler = [],
      svc_Destinations = []\<rparr>"

text \<open>
  Error values. The two sentinels are the typed not-found errors of \<^verbatim>\<open>api/types\<close>;
  every other error is known by its message (\<^verbatim>\<open>fmt.Errorf\<close>, or what a system call
  reported).
\<close>

datatype error = ErrServiceNotFound | ErrDestinationNotFound | Errorf string

section \<open>Catalog state (ipvs/state.go)\<close>

text \<open>
  \<^verbatim>\<open>FusisState\<close> holds two Go maps keyed by string. A map is an association list with
  \<open>map_of\<close> for indexing, \<open>AList.update\<close> for assignment and \<open>AList.delete\<close> for
  \<^verbatim>\<open>delete\<close>. A \<^verbatim>\<open>range\<close> loop visits the entries in the order of the list; Go leaves
  that order unspecified, so statements about what an iteration produces are made on
  the set of results, never on their order.

  The methods \<^verbatim>\<open>Service.GetId\<close> and \<^verbatim>\<open>Destination.GetId\<close> are declared in
  \<^verbatim>\<open>api/types\<close> too. They are parameters of the model: \<open>sid\<close> and \<open>did\<close>.
\<close>

record FusisState =
  Services :: "(string \<times> service) list"
  Destinations :: "(string \<times> destination) list"

definition NewFusisState :: FusisState where
  "NewFusisState = \<lparr>Services = [], Destinations = []\<rparr>"

definition index_Service :: "(string \<times> service) list \<Rightarrow> string \<Rightarrow> service" where
  "index_Service m k = (case map_of m k of None \<Rightarrow> zero_Service | Some v \<Rightarrow> v)"

definition index_Destination :: "(string \<times> destination) list \<Rightarrow> string \<Rightarrow> destination" where
  "index_Destination m k = (case map_of m k of None \<Rightarrow> zero_Destination | Some v \<Rightarrow> v)"

definition getDestinations :: "(service \<Rightarrow> string) \<Rightarrow> FusisState \<Rightarrow> service \<Rightarrow> service" where
  "getDestinations sid s svc =
     svc\<lparr>svc_Destinations := filter (\<lambda>d. dst_ServiceId d = sid svc) (map snd (Destinations s))\<rparr>"

definition GetServices :: "(service \<Rightarrow> string) \<Rightarrow> FusisState \<Rightarrow> service list" where
  "GetServices sid s = map (\<lambda>(k, v). getDestinations sid s v) (Services s)"

definition GetService :: "(service \<Rightarrow> string) \<Rightarrow> FusisState \<Rightarrow> string \<Rightarrow> error + service" where
  "GetService sid s name =
     (let svc = index_Service (Services s) name
      in if svc_Name svc = [] then Inl ErrServiceNotFound
         else Inr (getDestinations sid s svc))"

definition AddService :: "(service \<Rightarrow> string) \<Rightarrow> FusisState \<Rightarrow> service \<Rightarrow> FusisState" where
  "AddService sid s svc = s\<lparr>Services := AList.update (sid svc) svc (Services s)\<rparr>"

definition DeleteService :: "(service \<Rightarrow> string) \<Rightarrow> FusisState \<Rightarrow> service \<Rightarrow> FusisState" where
  "DeleteService sid s svc = s\<lparr>Services := AList.delete (sid svc) (Services s)\<rparr>"

definition GetDestination :: "FusisState \<Rightarrow> string \<Rightarrow> error + destination" where
  "GetDestination s name =
     (let dst = index_Destination (Destinations s) name
      in if dst_Name dst = [] then Inl ErrDestinationNotFound else Inr dst)"

definition AddDestination :: "(destination \<Rightarrow> string) \<Rightarrow> FusisState \<Rightarrow> destination \<Rightarrow> FusisState" where
  "AddDestination did s dst = s\<lparr>Destinations := AList.update (did dst) dst (Destinations s)\<rparr>"

definition DeleteDestination :: "(destination \<Rightarrow> string) \<Rightarrow> FusisState \<Rightarrow> destination \<Rightarrow> FusisState" where
  "DeleteDestination did s dst = s\<lparr>Destinations := AList.delete (did dst) (Destinations s)\<rparr>"

definition catalog_wf :: "(service \<Rightarrow> string) \<Rightarrow> (destination \<Rightarrow> string) \<Rightarrow> FusisState \<Rightarrow> bool" where
  \<comment> \<open>What \<^verbatim>\<open>AddService\<close> and \<^verbatim>\<open>AddDestination\<close> maintain: a Go map holds a key once, and
      every entry is stored under the identifier of its value.\<close>
  "catalog_wf sid did s \<longleftrightarrow>
     distinct (map fst (Services s)) \<and> distinct (map fst (Destinations s)) \<and>
     list_all (\<lambda>(k, v). k = sid v) (Services s) \<and>
     list_all (\<lambda>(k, d). k = did d) (Destinations s)"

definition no_orphans :: "(service \<Rightarrow> string) \<Rightarrow> FusisState \<Rightarrow> bool" where
  \<comment> \<open>invariant 2 of the data model: every Destination references a stored Service\<close>
  "no_orphans sid s \<longleftrightarrow>
     list_all (\<lambda>(k, d). dst_ServiceId d \<in> sid ` snd ` set (Services s)) (Destinations s)"

definition unordered :: "service \<Rightarrow> service \<times> destination set" where
  \<comment> \<open>a Service as a reader sees it: its own fields, and its Destinations in no order\<close>
  "unordered v = (v\<lparr>svc_Destinations := []\<rparr>, set (svc_Destinations v))"

section \<open>What the node's surroundings answer\<close>

text \<open>
  The packages \<^verbatim>\<open>net\<close> (address binding on the interface), \<^verbatim>\<open>ipvs\<close>'s \<^verbatim>\<open>Ipvs.SyncState\<close>,
  \<^verbatim>\<open>api/types\<close> and the JSON codec are not among the sources. What they answer is a
  parameter of the model, collected in one record. A failing call answers with the
  message of its error.
\<close>

record command =
  Op :: int
  Service :: "service option"
  Destination :: "destination option"

record world =
  Service_GetId :: "service \<Rightarrow> string"
  Destination_GetId :: "destination \<Rightarrow> string"
  json_Unmarshal :: "string \<Rightarrow> string + command"
  json_Decode :: "string \<Rightarrow> string + service list"
  IsLeader :: bool
  iface :: string
  GetFusisVipsIps :: "string \<Rightarrow> string + string list"
  AddIp :: "string \<Rightarrow> string \<Rightarrow> string option"
  DelIp :: "string \<Rightarrow> string \<Rightarrow> string option"
  DelVips :: "string \<Rightarrow> string option"
  SyncState :: "FusisState \<Rightarrow> error option"

datatype net_call =
    Call_GetFusisVipsIps string
  | Call_AddIp string string
  | Call_DelIp string string
  | Call_DelVips string

section \<open>Provider "none": SyncVIPs\<close>

fun strings_Join :: "string list \<Rightarrow> string \<Rightarrow> string" where
  "strings_Join [] sep = []"
| "strings_Join [x] sep = x"
| "strings_Join (x # y # ys) sep = x @ sep @ strings_Join (y # ys) sep"

definition toAddMap_of :: "service list \<Rightarrow> (string \<times> unit) list" where
  \<comment> \<open>first loop: \<^verbatim>\<open>toAddMap[s.Host] = struct{}{}\<close>\<close>
  "toAddMap_of newServices = fold (\<lambda>s m. AList.update (svc_Host s) () m) newServices []"

fun split_oldVIPs ::
  "string list \<Rightarrow> (string \<times> unit) list \<times> string list \<Rightarrow> (string \<times> unit) list \<times> string list" where
  \<comment> \<open>second loop, over \<^verbatim>\<open>oldVIPs\<close>, on the pair \<^verbatim>\<open>(toAddMap, toRemove)\<close>\<close>
  "split_oldVIPs [] (toAddMap, toRemove) = (toAddMap, toRemove)"
| "split_oldVIPs (ip # ips) (toAddMap, toRemove) =
     (if map_of toAddMap ip \<noteq> None
      then split_oldVIPs ips (AList.delete ip toAddMap, toRemove)
      else split_oldVIPs ips (toAddMap, toRemove @ [ip]))"

definition add_errors :: "world \<Rightarrow> string list \<Rightarrow> string list" where
  "add_errors w ips =
     concat (map (\<lambda>ip. case AddIp w (ip @ ''/32'') (iface w) of
                          None \<Rightarrow> []
                        | Some err \<Rightarrow> [''error adding ip '' @ ip @ '': '' @ err]) ips)"

definition del_errors :: "world \<Rightarrow> string list \<Rightarrow> string list" where
  "del_errors w ips =
     concat (map (\<lambda>ip. case DelIp w (ip @ ''/32'') (iface w) of
                          None \<Rightarrow> []
                        | Some err \<Rightarrow> [''error deleting ip '' @ ip @ '': '' @ err]) ips)"

definition SyncVIPs :: "world \<Rightarrow> FusisState \<Rightarrow> net_call list \<times> error option" where
  \<comment> \<open>the calls issued to package \<^verbatim>\<open>net\<close>, in order, and the error returned\<close>
  "SyncVIPs w state =
     (case GetFusisVipsIps w (iface w) of
        Inl err \<Rightarrow> ([Call_GetFusisVipsIps (iface w)], Some (Errorf err))
      | Inr oldVIPs \<Rightarrow>
          (let newServices = GetServices (Service_GetId w) state;
               (toAddMap, toRemove) = split_oldVIPs oldVIPs (toAddMap_of newServices, []);
               errors = add_errors w (map fst toAddMap) @ del_errors w toRemove
           in (Call_GetFusisVipsIps (iface w)
                 # map (\<lambda>ip. Call_AddIp (ip @ ''/32'') (iface w)) (map fst toAddMap)
                 @ map (\<lambda>ip. Call_DelIp (ip @ ''/32'') (iface w)) toRemove,
               if length errors > 0
               then Some (Errorf (''multiple errors: '' @ strings_Join errors '' | ''))
               else None)))"

section \<open>Engine: the replicated state machine\<close>

definition AddServiceOp :: int where "AddServiceOp = 0"
definition DelServiceOp :: int where "DelServiceOp = 1"
definition AddDestinationOp :: int where "AddDestinationOp = 2"
definition DelDestinationOp :: int where "DelDestinationOp = 3"

datatype panic = Panic string | NilPointerDereference

text \<open>
  The \<^verbatim>\<open>switch\<close> of \<^verbatim>\<open>Apply\<close>. \<^verbatim>\<open>Command.Service\<close> and \<^verbatim>\<open>Command.Destination\<close> are
  pointers: a record that leaves the field out decodes to \<^verbatim>\<open>nil\<close>, and the state
  method called with it dereferences it (\<^verbatim>\<open>svc.GetId()\<close>) before touching a map.
  An \<^verbatim>\<open>Op\<close> outside the four constants matches no case.
\<close>

definition apply_Command ::
  "(service \<Rightarrow> string) \<Rightarrow> (destination \<Rightarrow> string) \<Rightarrow> FusisState \<Rightarrow> command \<Rightarrow> panic + FusisState" where
  "apply_Command sid did s c =
     (if Op c = AddServiceOp then
        (case Service c of None \<Rightarrow> Inl NilPointerDereference
                         | Some svc \<Rightarrow> Inr (AddService sid s svc))
      else if Op c = DelServiceOp then
        (case Service c of None \<Rightarrow> Inl NilPointerDereference
                         | Some svc \<Rightarrow> Inr (DeleteService sid s svc))
      else if Op c = AddDestinationOp then
        (case Destination c of None \<Rightarrow> Inl NilPointerDereference
                             | Some dst \<Rightarrow> Inr (AddDestination did s dst))
      else if Op c = DelDestinationOp then
        (case Destination c of None \<Rightarrow> Inl NilPointerDereference
                             | Some dst \<Rightarrow> Inr (DeleteDestination did s dst))
      else Inr s)"

definition Snapshot :: "(service \<Rightarrow> string) \<Rightarrow> FusisState \<Rightarrow> service list" where
  \<comment> \<open>the slice held by \<^verbatim>\<open>fusisSnapshot\<close>\<close>
  "Snapshot sid s = GetServices sid s"

definition restore_Services ::
  "(service \<Rightarrow> string) \<Rightarrow> (destination \<Rightarrow> string) \<Rightarrow> service list \<Rightarrow> FusisState \<Rightarrow> FusisState" where
  \<comment> \<open>the nested loops of \<^verbatim>\<open>Restore\<close>\<close>
  "restore_Services sid did services s =
     fold (\<lambda>svc s'. fold (\<lambda>d s''. AddDestination did s'' d) (svc_Destinations svc)
                       (AddService sid s' svc)) services s"

section \<open>Balancer: reconciliation on a state change\<close>

datatype event =
    Ev_Lock
  | Ev_Unlock
  | Ev_Net net_call
  | Ev_SyncState FusisState
  | Ev_LogError error

definition handleStateChange :: "world \<Rightarrow> FusisState \<Rightarrow> event list \<times> error option" where
  \<comment> \<open>on the leader the value \<^verbatim>\<open>SyncVIPs\<close> returns is not bound to anything; on a
      follower the deferred \<^verbatim>\<open>Unlock\<close> runs after \<^verbatim>\<open>SyncState\<close> has returned\<close>
  "handleStateChange w s =
     (if IsLeader w
      then (map Ev_Net (fst (SyncVIPs w s)) @ [Ev_SyncState s], SyncState w s)
      else ([Ev_Lock, Ev_SyncState s, Ev_Unlock], SyncState w s))"

section \<open>Apply, Restore and the state-change watcher\<close>

text \<open>
  \<^verbatim>\<open>Engine.Apply\<close> and \<^verbatim>\<open>Engine.Restore\<close> run in the consensus runtime's goroutine,
  \<^verbatim>\<open>Balancer.watchState\<close> in its own. They meet on two unbuffered channels: \<^verbatim>\<open>StateCh\<close>
  carries the reply channel \<^verbatim>\<open>rsp\<close>, and \<^verbatim>\<open>rsp\<close> carries the error back. A send on an
  unbuffered channel completes together with the matching receive, so each of the two
  is one joint step. The program counters name the statement each goroutine is at.
\<close>

record raft_Log =
  Data :: string

datatype fsm_pc =
    Fsm_Apply raft_Log
  | Fsm_Restore string
  | Fsm_Send
  | Fsm_Recv
  | Fsm_Return "error option"
  | Fsm_Panic panic

datatype watch_pc =
    Watch_Recv
  | Watch_Handle
  | Watch_Reply "error option"

record system =
  State :: FusisState
  fsm :: fsm_pc
  watch :: watch_pc
  published :: nat
  trace :: "event list"

definition fsm_step :: "world \<Rightarrow> system \<Rightarrow> system option" where
  \<comment> \<open>what the FSM goroutine does up to its send on \<^verbatim>\<open>StateCh\<close>\<close>
  "fsm_step w c =
     (case fsm c of
        Fsm_Apply l \<Rightarrow>
          (case json_Unmarshal w (Data l) of
             Inl err \<Rightarrow>
               Some (c\<lparr>fsm := Fsm_Panic (Panic (''failed to unmarshal command: '' @ err))\<rparr>)
           | Inr cmd \<Rightarrow>
               (case apply_Command (Service_GetId w) (Destination_GetId w) (State c) cmd of
                  Inl p \<Rightarrow> Some (c\<lparr>fsm := Fsm_Panic p\<rparr>)
                | Inr s \<Rightarrow> Some (c\<lparr>State := s, fsm := Fsm_Send\<rparr>)))
      | Fsm_Restore rc \<Rightarrow>
          (case json_Decode w rc of
             Inl err \<Rightarrow> Some (c\<lparr>fsm := Fsm_Return (Some (Errorf err))\<rparr>)
           | Inr services \<Rightarrow>
               Some (c\<lparr>State := restore_Services (Service_GetId w) (Destination_GetId w)
                                   services (State c),
                       fsm := Fsm_Send\<rparr>))
      | _ \<Rightarrow> None)"

definition step :: "world \<Rightarrow> system \<Rightarrow> system option" where
  \<comment> \<open>one step of the pair of goroutines; \<open>None\<close> when neither can move. From a call
      that finds the watcher at its receive, at most one of them can move at any time.\<close>
  "step w c =
     (case (fsm c, watch c) of
        (_, Watch_Handle) \<Rightarrow>
          (let (evs, err) = handleStateChange w (State c)
           in Some (c\<lparr>watch := Watch_Reply err, trace := trace c @ evs\<rparr>))
      | (Fsm_Send, Watch_Recv) \<Rightarrow>
          Some (c\<lparr>fsm := Fsm_Recv, watch := Watch_Handle, published := published c + 1\<rparr>)
      | (Fsm_Recv, Watch_Reply err) \<Rightarrow>
          Some (c\<lparr>fsm := Fsm_Return err, watch := Watch_Recv\<rparr>)
      | _ \<Rightarrow> fsm_step w c)"

fun run :: "world \<Rightarrow> nat \<Rightarrow> system \<Rightarrow> system option" where
  \<comment> \<open>runs until neither goroutine can move; \<open>None\<close> when the fuel ends first\<close>
  "run w 0 c = None"
| "run w (Suc n) c = (case step w c of None \<Rightarrow> Some c | Some c' \<Rightarrow> run w n c')"

definition Apply :: "FusisState \<Rightarrow> raft_Log \<Rightarrow> system" where
  \<comment> \<open>a call of \<^verbatim>\<open>Apply\<close> on catalog \<open>s\<close>, the watcher waiting on \<^verbatim>\<open>StateCh\<close>\<close>
  "Apply s l = \<lparr>State = s, fsm = Fsm_Apply l, watch = Watch_Recv, published = 0, trace = []\<rparr>"

definition Restore :: "FusisState \<Rightarrow> string \<Rightarrow> system" where
  "Restore s rc = \<lparr>State = s, fsm = Fsm_Restore rc, watch = Watch_Recv, published = 0, trace = []\<rparr>"

definition carries_payload :: "command \<Rightarrow> bool" where
  \<comment> \<open>section 3: a Command carries the Service or the Destination its op works on\<close>
  "carries_payload c \<longleftrightarrow>
     (if Op c = AddServiceOp \<or> Op c = DelServiceOp then Service c \<noteq> None
      else if Op c = AddDestinationOp \<or> Op c = DelDestinationOp then Destination c \<noteq> None
      else True)"

section \<open>Balancer: leadership changes\<close>

definition flushVips :: "world \<Rightarrow> event list" where
  "flushVips w =
     Ev_Net (Call_DelVips (iface w))
       # (case DelVips w (iface w) of None \<Rightarrow> [] | Some err \<Rightarrow> [Ev_LogError (Errorf err)])"

definition setVips :: "world \<Rightarrow> FusisState \<Rightarrow> event list" where
  "setVips w s =
     (let (calls, err) = SyncVIPs w s
      in map Ev_Net calls @ (case err of None \<Rightarrow> [] | Some e \<Rightarrow> [Ev_LogError e]))"

definition leaderChange :: "world \<Rightarrow> FusisState \<Rightarrow> bool \<Rightarrow> event list" where
  \<comment> \<open>the body of the loop of \<^verbatim>\<open>watchLeaderChanges\<close> for one value of \<^verbatim>\<open>LeaderCh\<close>\<close>
  "leaderChange w s isLeader =
     Ev_Lock # (if isLeader then flushVips w @ setVips w s else flushVips w) @ [Ev_Unlock]"

fun watchLeaderChanges :: "(bool \<times> world \<times> FusisState) list \<Rightarrow> event list" where
  \<comment> \<open>the loop over the values received so far, each with the surroundings and the
      catalog of its moment\<close>
  "watchLeaderChanges [] = []"
| "watchLeaderChanges ((isLeader, w, s) # rest) = leaderChange w s isLeader @ watchLeaderChanges rest"

fun net_calls :: "event list \<Rightarrow> net_call list" where
  "net_calls [] = []"
| "net_calls (Ev_Net c # es) = c # net_calls es"
| "net_calls (e # es) = net_calls es"

fun lock_run :: "bool \<Rightarrow> event list \<Rightarrow> bool option" where
  \<comment> \<open>follows the Balancer's mutex along a trace, from \<open>held\<close>: \<open>None\<close> when a \<^verbatim>\<open>Lock\<close>
      finds it held, an \<^verbatim>\<open>Unlock\<close> finds it free, or a call to package \<^verbatim>\<open>net\<close> is made
      without it\<close>
  "lock_run held [] = Some held"
| "lock_run held (Ev_Lock # es) = (if held then None else lock_run True es)"
| "lock_run held (Ev_Unlock # es) = (if held then lock_run False es else None)"
| "lock_run held (Ev_Net c # es) = (if held then lock_run held es else None)"
| "lock_run held (e # es) = lock_run held es"

text \<open>
  \<^verbatim>\<open>sync.Mutex\<close>, followed along the events of several goroutines in the order they
  happen: a \<^verbatim>\<open>Lock\<close> returns only when the mutex is free, and an \<^verbatim>\<open>Unlock\<close> needs it held.
\<close>

fun mutex_allows :: "bool \<Rightarrow> event list \<Rightarrow> bool" where
  "mutex_allows held [] = True"
| "mutex_allows held (Ev_Lock # es) = (\<not> held \<and> mutex_allows True es)"
| "mutex_allows held (Ev_Unlock # es) = (held \<and> mutex_allows False es)"
| "mutex_allows held (e # es) = mutex_allows held es"

section \<open>Balancer: Leave and Shutdown\<close>

text \<open>
  What the consensus and gossip runtimes answer during a shutdown. \<open>Peers k\<close> is the
  answer of the \<open>k\<close>-th call of \<^verbatim>\<open>raftPeers.Peers()\<close> and \<open>Peers_took k\<close> the time it takes,
  in milliseconds; \<^verbatim>\<open>raftStore\<close> is \<^verbatim>\<open>nil\<close> exactly in dev mode (\<^verbatim>\<open>setupRaft\<close>), and
  \<^verbatim>\<open>serf\<close> is never \<^verbatim>\<open>nil\<close> in a Balancer that \<^verbatim>\<open>NewBalancer\<close> returned. Calls of the logger
  are left out of the trace.
\<close>

record cluster =
  raft_IsLeader :: bool
  LocalAddr :: string
  Peers :: "nat \<Rightarrow> string + string list"
  Peers_took :: "nat \<Rightarrow> nat"
  DevMode :: bool

datatype leave_event =
    L_Peers
  | L_RemovePeer string
  | L_SerfLeave
  | L_Sleep nat
  | L_SerfShutdown
  | L_RaftShutdown
  | L_StoreClose
  | L_SetPeers "string list"

definition raftRemoveGracePeriod :: nat where
  "raftRemoveGracePeriod = 5000"

definition ExcludePeer :: "string list \<Rightarrow> string \<Rightarrow> string list" where
  \<comment> \<open>\<^verbatim>\<open>raft.ExcludePeer\<close> of the consensus library: the list without the given peer\<close>
  "ExcludePeer peers peer = filter (\<lambda>p. p \<noteq> peer) peers"

definition numOtherPeers :: "cluster \<Rightarrow> nat \<Rightarrow> string + nat" where
  "numOtherPeers cl k =
     (case Peers cl k of
        Inl err \<Rightarrow> Inl err
      | Inr peers \<Rightarrow> Inr (length (ExcludePeer peers (LocalAddr cl))))"

text \<open>
  The loop of \<^verbatim>\<open>Leave\<close>, on \<^verbatim>\<open>numPeers\<close>, the clock and the number of the next call of
  \<^verbatim>\<open>Peers\<close>; it returns the events, the final \<^verbatim>\<open>numPeers\<close> and the final clock. A failed
  call assigns \<^verbatim>\<open>0\<close> to \<^verbatim>\<open>numPeers\<close> before the \<^verbatim>\<open>break\<close>.
\<close>

function wait_removed ::
  "cluster \<Rightarrow> nat \<Rightarrow> nat \<Rightarrow> nat \<Rightarrow> nat \<Rightarrow> leave_event list \<times> nat \<times> nat" where
  "wait_removed cl limit now k numPeers =
     (if numPeers > 0 \<and> now < limit then
        (case numOtherPeers cl k of
           Inl err \<Rightarrow> ([L_Peers], 0, now + Peers_took cl k)
         | Inr n \<Rightarrow>
             if n = 0 then ([L_Peers], 0, now + Peers_took cl k)
             else (case wait_removed cl limit (now + Peers_took cl k + 50) (Suc k) n of
                     (evs, n', now') \<Rightarrow> (L_Peers # L_Sleep 50 # evs, n', now')))
      else ([], numPeers, now))"
  by pat_completeness auto
termination
  by (relation "measure (\<lambda>(cl, limit, now, k, numPeers). limit - now)") auto

definition Leave :: "cluster \<Rightarrow> nat \<Rightarrow> leave_event list" where
  \<comment> \<open>\<open>now\<close> is the clock when \<^verbatim>\<open>limit\<close> is computed\<close>
  "Leave cl now =
     (case numOtherPeers cl 0 of
        Inl err \<Rightarrow> [L_Peers]
      | Inr numPeers \<Rightarrow>
          L_Peers # L_SerfLeave
            # (if \<not> raft_IsLeader cl
               then fst (wait_removed cl (now + raftRemoveGracePeriod) now 1 numPeers)
               else []))"

definition Shutdown :: "cluster \<Rightarrow> nat \<Rightarrow> leave_event list" where
  "Shutdown cl now =
     Leave cl now @ [L_SerfShutdown, L_RaftShutdown]
       @ (if DevMode cl then [] else [L_StoreClose]) @ [L_SetPeers []]"

definition handleBalancerLeave :: "bool \<Rightarrow> string \<Rightarrow> leave_event list" where
  \<comment> \<open>the one place of the Balancer that removes a consensus peer: the leader, on the
      gossip event of another balancer's departure\<close>
  "handleBalancerLeave isLeader peer = (if \<not> isLeader then [] else [L_RemovePeer peer])"

section \<open>Concrete inputs\<close>

text \<open>
  Modelled from the spec: \<^verbatim>\<open>GetId\<close> is declared in \<^verbatim>\<open>api/types\<close>, which is not among the
  sources. The catalog's lookups take their key as a name (\<^verbatim>\<open>GetService(name)\<close>,
  \<^verbatim>\<open>GetDestination(name)\<close>) and test the \<^verbatim>\<open>Name\<close> of what they find, so the inputs below
  identify an entry by its name. Every theorem stated for all inputs holds for any
  \<^verbatim>\<open>GetId\<close>; the choice matters for these examples only.
\<close>

definition web :: service where
  "web = \<lparr>svc_Name = ''web'', svc_Host = ''10.0.0.1'', svc_Port = 80, svc_Protocol = ''tcp'',
          svc_Scheduler = ''rr'', svc_Destinations = []\<rparr>"

definition web_1 :: destination where
  "web_1 = \<lparr>dst_Name = ''web-1'', dst_Host = ''192.168.1.10'', dst_Port = 8080, dst_Weight = 1,
            dst_Mode = ''nat'', dst_ServiceId = ''web''\<rparr>"

definition web_2 :: destination where
  "web_2 = \<lparr>dst_Name = ''web-2'', dst_Host = ''192.168.1.11'', dst_Port = 8080, dst_Weight = 1,
            dst_Mode = ''nat'', dst_ServiceId = ''web''\<rparr>"

definition nameless :: service where
  "nameless = \<lparr>svc_Name = [], svc_Host = ''10.0.0.2'', svc_Port = 53, svc_Protocol = ''udp'',
               svc_Scheduler = ''rr'', svc_Destinations = []\<rparr>"

definition api :: service where
  "api = \<lparr>svc_Name = ''api'', svc_Host = ''10.0.0.3'', svc_Port = 443, svc_Protocol = ''tcp'',
          svc_Scheduler = ''wlc'', svc_Destinations = []\<rparr>"

definition web_catalog :: FusisState where
  "web_catalog = AddDestination dst_Name (AddService svc_Name NewFusisState web) web_1"

definition two_catalog :: FusisState where
  "two_catalog = AddService svc_Name web_catalog api"

definition orphan_catalog :: FusisState where
  "orphan_catalog = AddDestination dst_Name NewFusisState web_1"

definition del_web :: command where
  "del_web = \<lparr>Op = DelServiceOp, Service = Some web, Destination = None\<rparr>"

definition add_web :: command where
  "add_web = \<lparr>Op = AddServiceOp, Service = Some web, Destination = None\<rparr>"

definition add_nothing :: command where
  "add_nothing = \<lparr>Op = AddServiceOp, Service = None, Destination = None\<rparr>"

definition leader_world :: world where
  \<comment> \<open>a leader on whose interface no address can be added; every other call succeeds\<close>
  "leader_world =
     \<lparr>Service_GetId = svc_Name, Destination_GetId = dst_Name,
      json_Unmarshal = (\<lambda>data. if data = ''add web'' then Inr add_web
                               else if data = ''add'' then Inr add_nothing
                               else Inl ''unexpected end of JSON input''),
      json_Decode = (\<lambda>data. Inl ''unexpected end of JSON input''),
      IsLeader = True, iface = ''eth0'',
      GetFusisVipsIps = (\<lambda>i. Inr [''10.0.0.9'']),
      AddIp = (\<lambda>cidr i. Some ''operation not permitted''),
      DelIp = (\<lambda>cidr i. None),
      DelVips = (\<lambda>i. None),
      SyncState = (\<lambda>s. None)\<rparr>"

definition follower_world :: world where
  \<comment> \<open>the same surroundings on a node that is not the leader\<close>
  "follower_world = leader_world\<lparr>IsLeader := False\<rparr>"

definition refusing_world :: world where
  \<comment> \<open>a leader on whose interface no address can be added or removed\<close>
  "refusing_world = leader_world\<lparr>DelIp := (\<lambda>cidr i. Some ''cannot assign requested address'')\<rparr>"

definition leader_cluster :: cluster where
  \<comment> \<open>a leader with one other peer, which stays in the peer set\<close>
  "leader_cluster =
     \<lparr>raft_IsLeader = True, LocalAddr = ''10.1.0.1:4382'',
      Peers = (\<lambda>k. Inr [''10.1.0.1:4382'', ''10.1.0.2:4382'']),
      Peers_took = (\<lambda>k. 0), DevMode = False\<rparr>"

definition follower_cluster :: cluster where
  \<comment> \<open>a follower that the new leader removes between its second and third look\<close>
  "follower_cluster =
     \<lparr>raft_IsLeader = False, LocalAddr = ''10.1.0.2:4382'',
      Peers = (\<lambda>k. if k < 2 then Inr [''10.1.0.1:4382'', ''10.1.0.2:4382'']
                    else Inr [''10.1.0.2:4382'']),
      Peers_took = (\<lambda>k. 1), DevMode = False\<rparr>"

section \<open>Properties of the catalog\<close>

lemma list_all_update:
  "list_all (\<lambda>(k, v). k = f v) al \<Longrightarrow> list_all (\<lambda>(k, v). k = f v) (AList.update (f x) x al)"
  by (induction al) auto

lemma list_all_delete: "list_all P al \<Longrightarrow> list_all P (AList.delete k al)"
  by (induction al) auto

lemma catalog_wf_New: "catalog_wf sid did NewFusisState"
  by (simp add: catalog_wf_def NewFusisState_def)

lemma catalog_wf_AddService: "catalog_wf sid did s \<Longrightarrow> catalog_wf sid did (AddService sid s svc)"
  by (simp add: catalog_wf_def AddService_def distinct_update list_all_update)

lemma catalog_wf_DeleteService: "catalog_wf sid did s \<Longrightarrow> catalog_wf sid did (DeleteService sid s svc)"
  by (simp add: catalog_wf_def DeleteService_def distinct_delete list_all_delete)

lemma catalog_wf_AddDestination: "catalog_wf sid did s \<Longrightarrow> catalog_wf sid did (AddDestination did s dst)"
  by (simp add: catalog_wf_def AddDestination_def distinct_update list_all_update)

lemma catalog_wf_DeleteDestination:
  "catalog_wf sid did s \<Longrightarrow> catalog_wf sid did (DeleteDestination did s dst)"
  by (simp add: catalog_wf_def DeleteDestination_def distinct_delete list_all_delete)

lemma catalog_wf_apply_Command:
  "catalog_wf sid did s \<Longrightarrow> apply_Command sid did s c = Inr s' \<Longrightarrow> catalog_wf sid did s'"
  by (auto simp: apply_Command_def catalog_wf_AddService catalog_wf_DeleteService
      catalog_wf_AddDestination catalog_wf_DeleteDestination split: if_splits option.splits)

lemma catalog_wf_web_catalog: "catalog_wf svc_Name dst_Name web_catalog"
  unfolding web_catalog_def
  by (intro catalog_wf_AddDestination catalog_wf_AddService catalog_wf_New)

text \<open>
  C6. The four mutations are idempotent. \<^verbatim>\<open>AddService\<close> (\<^verbatim>\<open>AddDestination\<close>) with an id
  that is present overwrites the entry stored under it, so adding what is already
  stored, or adding the same value twice, leaves the catalog as it was; \<^verbatim>\<open>DeleteService\<close>
  (\<^verbatim>\<open>DeleteDestination\<close>) with an id that is not present changes nothing, and deleting
  twice is deleting once. Neither pair touches the other map.
\<close>

theorem catalog_mutations_idempotent:
  "map_of (Services (AddService sid s svc)) = (map_of (Services s))(sid svc \<mapsto> svc)
   \<and> Destinations (AddService sid s svc) = Destinations s
   \<and> (map_of (Services s) (sid svc) = Some svc \<longrightarrow> AddService sid s svc = s)
   \<and> AddService sid (AddService sid s svc) svc = AddService sid s svc
   \<and> (map_of (Services s) (sid svc') = None \<longrightarrow> DeleteService sid s svc' = s)
   \<and> DeleteService sid (DeleteService sid s svc') svc' = DeleteService sid s svc'
   \<and> map_of (Destinations (AddDestination did s dst)) = (map_of (Destinations s))(did dst \<mapsto> dst)
   \<and> Services (AddDestination did s dst) = Services s
   \<and> (map_of (Destinations s) (did dst) = Some dst \<longrightarrow> AddDestination did s dst = s)
   \<and> AddDestination did (AddDestination did s dst) dst = AddDestination did s dst
   \<and> (map_of (Destinations s) (did dst') = None \<longrightarrow> DeleteDestination did s dst' = s)
   \<and> DeleteDestination did (DeleteDestination did s dst') dst' = DeleteDestination did s dst'"
  by (simp add: AddService_def DeleteService_def AddDestination_def DeleteDestination_def
      update_conv' update_triv delete_idem map_of_eq_None_iff)

text \<open>
  The catalog holding \<open>web\<close> and \<open>web_1\<close>: adding either again, and deleting the
  absent \<open>nameless\<close> and \<open>web_2\<close>, return the same catalog.
\<close>

theorem catalog_mutations_idempotent_witness:
  "map_of (Services web_catalog) (svc_Name web) = Some web
   \<and> AddService svc_Name web_catalog web = web_catalog
   \<and> map_of (Services web_catalog) (svc_Name nameless) = None
   \<and> DeleteService svc_Name web_catalog nameless = web_catalog
   \<and> map_of (Destinations web_catalog) (dst_Name web_1) = Some web_1
   \<and> AddDestination dst_Name web_catalog web_1 = web_catalog
   \<and> map_of (Destinations web_catalog) (dst_Name web_2) = None
   \<and> DeleteDestination dst_Name web_catalog web_2 = web_catalog"
proof -
  have a: "map_of (Services web_catalog) (svc_Name web) = Some web"
    and b: "map_of (Services web_catalog) (svc_Name nameless) = None"
    and c: "map_of (Destinations web_catalog) (dst_Name web_1) = Some web_1"
    and d: "map_of (Destinations web_catalog) (dst_Name web_2) = None"
    by (simp_all add: web_catalog_def AddService_def AddDestination_def NewFusisState_def
        web_def web_1_def web_2_def nameless_def)
  with catalog_mutations_idempotent [of svc_Name web_catalog web nameless dst_Name web_1 web_2]
  show ?thesis by simp
qed

text \<open>
  C8, as amended. \<^verbatim>\<open>GetService(name)\<close> indexes the services map and tests the \<^verbatim>\<open>Name\<close>
  of what it gets, the zero value when the key is missing. It returns the typed
  not-found error, and no other, exactly when nothing is stored under \<open>name\<close> or the
  Service stored there has an empty \<^verbatim>\<open>Name\<close>; otherwise it returns a copy of the stored
  Service whose \<^verbatim>\<open>Destinations\<close> are the stored Destinations with that Service's id as
  service-id. The model's function takes the catalog and returns no new one: what
  \<^verbatim>\<open>getDestinations\<close> writes is the local copy.
\<close>

theorem GetService_result:
  "(GetService sid s name = Inl ErrServiceNotFound \<longleftrightarrow>
      (map_of (Services s) name = None \<or> (\<exists>v. map_of (Services s) name = Some v \<and> svc_Name v = [])))
   \<and> (\<forall>e. GetService sid s name = Inl e \<longrightarrow> e = ErrServiceNotFound)
   \<and> (\<forall>v. map_of (Services s) name = Some v \<and> svc_Name v \<noteq> [] \<longrightarrow>
          GetService sid s name =
            Inr (v\<lparr>svc_Destinations := filter (\<lambda>d. dst_ServiceId d = sid v) (map snd (Destinations s))\<rparr>))"
  by (auto simp: GetService_def index_Service_def getDestinations_def zero_Service_def Let_def
      split: option.splits)

text \<open>
  On the catalog holding \<open>web\<close> and its destination \<open>web_1\<close>: the lookup of \<open>web\<close>
  returns it with \<open>web_1\<close> inlined, and the lookup of a name that is not stored fails.
\<close>

theorem GetService_result_witness:
  "map_of (Services web_catalog) ''web'' = Some web \<and> svc_Name web \<noteq> []
   \<and> GetService svc_Name web_catalog ''web'' = Inr (web\<lparr>svc_Destinations := [web_1]\<rparr>)
   \<and> map_of (Services web_catalog) ''api'' = None
   \<and> GetService svc_Name web_catalog ''api'' = Inl ErrServiceNotFound"
proof -
  have a: "map_of (Services web_catalog) ''web'' = Some web" and b: "svc_Name web \<noteq> []"
    and c: "map_of (Services web_catalog) ''api'' = None"
    and d: "filter (\<lambda>d. dst_ServiceId d = svc_Name web) (map snd (Destinations web_catalog)) = [web_1]"
    by (simp_all add: web_catalog_def AddService_def AddDestination_def NewFusisState_def
        web_def web_1_def)
  from GetService_result [of svc_Name web_catalog "''web''"] a b d
  have "GetService svc_Name web_catalog ''web'' = Inr (web\<lparr>svc_Destinations := [web_1]\<rparr>)"
    by simp
  moreover from GetService_result [of svc_Name web_catalog "''api''"] c
  have "GetService svc_Name web_catalog ''api'' = Inl ErrServiceNotFound"
    by simp
  ultimately show ?thesis using a b c by simp
qed

text \<open>
  C8 as stated fails where a Service with an empty \<^verbatim>\<open>Name\<close> is stored: after
  \<^verbatim>\<open>AddService\<close> of \<open>nameless\<close> an entry is present under its key, and the lookup of that
  key answers not-found. The lookup does not call \<^verbatim>\<open>GetId\<close> on this path.
\<close>

theorem GetService_nameless_counterexample:
  "map_of (Services (AddService svc_Name NewFusisState nameless)) (svc_Name nameless) = Some nameless
   \<and> GetService svc_Name (AddService svc_Name NewFusisState nameless) (svc_Name nameless)
       = Inl ErrServiceNotFound"
  by (simp add: GetService_def index_Service_def AddService_def NewFusisState_def nameless_def)


lemma GetServices_after_delete:
  assumes "catalog_wf sid did s" and "v \<in> set (GetServices sid (DeleteService sid s svc))"
    and "d \<in> set (svc_Destinations v)"
  shows "dst_ServiceId d \<noteq> sid svc"
proof -
  from assms(2) obtain k v0 where e: "(k, v0) \<in> set (AList.delete (sid svc) (Services s))"
    and v: "v = getDestinations sid (DeleteService sid s svc) v0"
    by (auto simp: GetServices_def DeleteService_def)
  from e have "k \<noteq> sid svc" and "(k, v0) \<in> set (Services s)"
    by (auto simp: AList.delete_eq)
  moreover from this assms(1) have "k = sid v0"
    by (auto simp: catalog_wf_def list_all_iff)
  moreover from v assms(3) have "dst_ServiceId d = sid v0"
    by (simp add: getDestinations_def)
  ultimately show ?thesis by simp
qed

lemma GetService_deleted: "GetService sid (DeleteService sid s svc) (sid svc) = Inl ErrServiceNotFound"
  by (simp add: GetService_def DeleteService_def index_Service_def delete_conv' zero_Service_def)

lemma catalog_wf_two_catalog: "catalog_wf svc_Name dst_Name two_catalog"
  unfolding two_catalog_def by (intro catalog_wf_AddService catalog_wf_web_catalog)

text \<open>
  C3, as amended. Applying a DelService command for \<open>svc\<close> calls \<^verbatim>\<open>DeleteService\<close>, which
  deletes one key of the services map and nothing else: the services map is the one
  from before without that key, every other name is answered by \<^verbatim>\<open>GetService\<close> as
  before, and \<^verbatim>\<open>GetServices\<close> returns the Services stored under the other keys. The
  deleted Service is not found, and no Service returned by \<^verbatim>\<open>GetServices\<close> carries a
  Destination whose service-id is the id of \<open>svc\<close>. The destinations map is the one from
  before, so \<^verbatim>\<open>GetDestination\<close> answers what it answered before the command.
\<close>

theorem DelService_removes_service_only:
  assumes "catalog_wf sid did s" and "Op c = DelServiceOp" and "Service c = Some svc"
  shows "\<exists>s'. apply_Command sid did s c = Inr s'
     \<and> GetService sid s' (sid svc) = Inl ErrServiceNotFound
     \<and> (\<forall>v\<in>set (GetServices sid s'). \<forall>d\<in>set (svc_Destinations v). dst_ServiceId d \<noteq> sid svc)
     \<and> map_of (Services s') = (map_of (Services s))(sid svc := None)
     \<and> (\<forall>name. name \<noteq> sid svc \<longrightarrow> GetService sid s' name = GetService sid s name)
     \<and> set (GetServices sid s') =
         {getDestinations sid s v | k v. (k, v) \<in> set (Services s) \<and> k \<noteq> sid svc}
     \<and> Destinations s' = Destinations s
     \<and> (\<forall>name. GetDestination s' name = GetDestination s name)"
proof -
  let ?s' = "DeleteService sid s svc"
  have a: "apply_Command sid did s c = Inr ?s'"
    using assms(2,3) by (simp add: apply_Command_def DelServiceOp_def AddServiceOp_def)
  have d: "Destinations ?s' = Destinations s"
    by (simp add: DeleteService_def)
  have m: "map_of (Services ?s') = (map_of (Services s))(sid svc := None)"
    by (simp add: DeleteService_def delete_conv')
  have g: "GetService sid ?s' name = GetService sid s name" if "name \<noteq> sid svc" for name
    using that by (simp add: GetService_def index_Service_def m getDestinations_def d Let_def)
  have l: "set (GetServices sid ?s') =
         {getDestinations sid s v | k v. (k, v) \<in> set (Services s) \<and> k \<noteq> sid svc}"
    by (auto simp: GetServices_def getDestinations_def d DeleteService_def AList.delete_eq image_iff)
  from a d m g l show ?thesis
    using GetService_deleted[of sid s svc] GetServices_after_delete[OF assms(1)]
    by (intro exI[of _ ?s']) (auto simp: GetDestination_def)
qed

text \<open>
  The catalog holding \<open>web\<close>, its destination \<open>web_1\<close> and a second Service \<open>api\<close>,
  and the command that deletes \<open>web\<close>: \<open>web\<close> is gone, \<open>api\<close> is answered as before,
  and \<open>web_1\<close> is still stored.
\<close>

theorem DelService_removes_service_only_witness:
  "catalog_wf svc_Name dst_Name two_catalog \<and> Op del_web = DelServiceOp \<and> Service del_web = Some web
   \<and> apply_Command svc_Name dst_Name two_catalog del_web = Inr (DeleteService svc_Name two_catalog web)
   \<and> GetService svc_Name two_catalog ''web'' = Inr (web\<lparr>svc_Destinations := [web_1]\<rparr>)
   \<and> GetService svc_Name (DeleteService svc_Name two_catalog web) (svc_Name web) = Inl ErrServiceNotFound
   \<and> GetService svc_Name (DeleteService svc_Name two_catalog web) ''api'' = Inr api
   \<and> GetServices svc_Name (DeleteService svc_Name two_catalog web) = [api]
   \<and> Destinations (DeleteService svc_Name two_catalog web) = Destinations two_catalog
   \<and> GetDestination (DeleteService svc_Name two_catalog web) ''web-1'' = Inr web_1"
proof -
  have a: "Op del_web = DelServiceOp" and b: "Service del_web = Some web"
    by (simp_all add: del_web_def)
  have c: "apply_Command svc_Name dst_Name two_catalog del_web = Inr (DeleteService svc_Name two_catalog web)"
    by (simp add: apply_Command_def del_web_def DelServiceOp_def AddServiceOp_def)
  have d: "GetServices svc_Name (DeleteService svc_Name two_catalog web) = [api]"
    by (simp add: GetServices_def getDestinations_def DeleteService_def two_catalog_def web_catalog_def
        AddService_def AddDestination_def NewFusisState_def web_def web_1_def api_def)
  have e: "GetService svc_Name two_catalog ''web'' = Inr (web\<lparr>svc_Destinations := [web_1]\<rparr>)"
    and f: "GetService svc_Name two_catalog ''api'' = Inr api"
    and g: "GetDestination two_catalog ''web-1'' = Inr web_1"
    by (simp_all add: GetService_def GetDestination_def index_Service_def index_Destination_def
        getDestinations_def two_catalog_def web_catalog_def AddService_def AddDestination_def
        NewFusisState_def web_def web_1_def api_def)
  have n: "''api'' \<noteq> svc_Name web" by (simp add: web_def)
  from DelService_removes_service_only [OF catalog_wf_two_catalog a b] c
  have "GetService svc_Name (DeleteService svc_Name two_catalog web) (svc_Name web) = Inl ErrServiceNotFound"
    and "\<forall>name. name \<noteq> svc_Name web \<longrightarrow>
           GetService svc_Name (DeleteService svc_Name two_catalog web) name = GetService svc_Name two_catalog name"
    and "Destinations (DeleteService svc_Name two_catalog web) = Destinations two_catalog"
    and "\<forall>name. GetDestination (DeleteService svc_Name two_catalog web) name = GetDestination two_catalog name"
    by auto
  with catalog_wf_two_catalog a b c d e f g n show ?thesis by simp
qed

text \<open>
  C3 as stated fails: after the DelService command for \<open>web\<close>, the Destination \<open>web_1\<close>,
  whose service-id is the id of \<open>web\<close>, is still returned by \<^verbatim>\<open>GetDestination\<close>.
\<close>

theorem DelService_keeps_destinations_counterexample:
  "dst_ServiceId web_1 = svc_Name web
   \<and> GetService svc_Name web_catalog (svc_Name web) = Inr (web\<lparr>svc_Destinations := [web_1]\<rparr>)
   \<and> apply_Command svc_Name dst_Name web_catalog del_web = Inr (DeleteService svc_Name web_catalog web)
   \<and> GetDestination (DeleteService svc_Name web_catalog web) ''web-1'' = Inr web_1"
  by (simp add: apply_Command_def del_web_def DelServiceOp_def AddServiceOp_def GetDestination_def
      GetService_def index_Service_def getDestinations_def
      index_Destination_def DeleteService_def web_catalog_def AddService_def AddDestination_def
      NewFusisState_def web_def web_1_def)

lemma fold_AddDestination:
  "Services (fold (\<lambda>d s''. AddDestination did s'' d) ds s) = Services s \<and>
   Destinations (fold (\<lambda>d s''. AddDestination did s'' d) ds s) =
     fold (\<lambda>d m. AList.update (did d) d m) ds (Destinations s)"
  by (induction ds arbitrary: s) (simp_all add: AddDestination_def)

lemma restore_Services_maps:
  "Services (restore_Services sid did xs s) = fold (\<lambda>v m. AList.update (sid v) v m) xs (Services s) \<and>
   Destinations (restore_Services sid did xs s) =
     fold (\<lambda>d m. AList.update (did d) d m) (concat (map svc_Destinations xs)) (Destinations s)"
  unfolding restore_Services_def
  by (induction xs arbitrary: s) (simp_all add: fold_AddDestination AddService_def)

lemma fold_update_distinct:
  "distinct (map fst m) \<Longrightarrow> distinct (map fst (fold (\<lambda>v m. AList.update (f v) v m) xs m))"
  by (induction xs arbitrary: m) (simp_all add: distinct_update)

lemma fold_update_map_of:
  assumes "\<forall>x\<in>set xs. \<forall>y\<in>set xs. f x = f y \<longrightarrow> x = y"
  shows "map_of (fold (\<lambda>v m. AList.update (f v) v m) xs []) k = Some v \<longleftrightarrow> v \<in> set xs \<and> f v = k"
  using assms
proof (induction xs rule: rev_induct)
  case Nil
  then show ?case by simp
next
  case (snoc x xs)
  then have "map_of (fold (\<lambda>v m. AList.update (f v) v m) xs []) k = Some v \<longleftrightarrow> v \<in> set xs \<and> f v = k"
    by simp
  with snoc.prems show ?case
    by (auto simp: update_conv')
qed

lemma fold_update_map_of_None:
  assumes "\<forall>x\<in>set xs. \<forall>y\<in>set xs. f x = f y \<longrightarrow> x = y"
    and "\<And>v. v \<in> set xs \<Longrightarrow> f v \<noteq> k"
  shows "map_of (fold (\<lambda>v m. AList.update (f v) v m) xs []) k = None"
proof (cases "map_of (fold (\<lambda>v m. AList.update (f v) v m) xs []) k")
  case None
  then show ?thesis .
next
  case (Some v)
  then have "v \<in> set xs \<and> f v = k"
    using fold_update_map_of[OF assms(1), of k v] by simp
  with assms(2) show ?thesis by blast
qed

lemma map_of_eq_set:
  "distinct (map fst a) \<Longrightarrow> distinct (map fst b) \<Longrightarrow> map_of a = map_of b \<Longrightarrow> set a = set b"
  by (metis distinct_clearjunk_id graph_map_of)

text \<open>
  C5, as amended. On a catalog in which every Destination references a stored Service,
  taking the snapshot and restoring it into an empty catalog gives a catalog that answers
  every \<^verbatim>\<open>GetDestination\<close>, every \<^verbatim>\<open>GetService\<close> and \<^verbatim>\<open>GetServices\<close> as the source does,
  the Destinations of a Service read in no order. The catalog is one that the four
  mutations build (\<open>catalog_wf\<close>), and \<^verbatim>\<open>GetId\<close> of a Service does not read its
  \<^verbatim>\<open>Destinations\<close> field, which the snapshot fills in.
\<close>

theorem snapshot_restore_roundtrip:
  assumes wf: "catalog_wf sid did s" and no: "no_orphans sid s"
    and ign: "\<forall>v ds. sid (v\<lparr>svc_Destinations := ds\<rparr>) = sid v"
  shows "(\<forall>name. GetDestination (restore_Services sid did (Snapshot sid s) NewFusisState) name
                  = GetDestination s name)
     \<and> (\<forall>name. map_sum id unordered (GetService sid (restore_Services sid did (Snapshot sid s) NewFusisState) name)
                  = map_sum id unordered (GetService sid s name))
     \<and> unordered ` set (GetServices sid (restore_Services sid did (Snapshot sid s) NewFusisState))
         = unordered ` set (GetServices sid s)"
proof -
  let ?S = "Services s" and ?D = "Destinations s"
  let ?g = "getDestinations sid s"
  let ?snap = "Snapshot sid s"
  let ?r = "restore_Services sid did ?snap NewFusisState"
  have dS: "distinct (map fst ?S)" and dD: "distinct (map fst ?D)"
    and kS: "\<And>k v. (k, v) \<in> set ?S \<Longrightarrow> k = sid v"
    and kD: "\<And>k d. (k, d) \<in> set ?D \<Longrightarrow> k = did d"
    using wf by (auto simp: catalog_wf_def list_all_iff)
  have snap: "?snap = map (\<lambda>(k, v). ?g v) ?S"
    by (simp add: Snapshot_def GetServices_def)
  have sidg: "\<And>v. sid (?g v) = sid v" using ign by (simp add: getDestinations_def)
  have S': "Services ?r = fold (\<lambda>v m. AList.update (sid v) v m) ?snap []"
    and D': "Destinations ?r = fold (\<lambda>d m. AList.update (did d) d m) (concat (map svc_Destinations ?snap)) []"
    by (simp_all add: restore_Services_maps NewFusisState_def)
  have dS': "distinct (map fst (Services ?r))" and dD': "distinct (map fst (Destinations ?r))"
    unfolding S' D' by (simp_all add: fold_update_distinct)
  \<comment> \<open>services\<close>
  have injS: "\<forall>x\<in>set ?snap. \<forall>y\<in>set ?snap. sid x = sid y \<longrightarrow> x = y"
  proof (intro ballI impI)
    fix x y assume "x \<in> set ?snap" "y \<in> set ?snap" "sid x = sid y"
    then obtain k1 v1 k2 v2 where "(k1, v1) \<in> set ?S" "x = ?g v1" "(k2, v2) \<in> set ?S" "y = ?g v2"
      by (auto simp: snap)
    with \<open>sid x = sid y\<close> kS sidg dS show "x = y"
      by (metis eq_key_imp_eq_value)
  qed
  have mS: "map_of (Services ?r) k = map_option ?g (map_of ?S k)" for k
  proof (cases "map_of ?S k")
    case None
    then have "k \<notin> fst ` set ?S" by (simp add: map_of_eq_None_iff)
    then have "\<And>v. v \<in> set ?snap \<Longrightarrow> sid v \<noteq> k"
      using kS sidg by (force simp: snap)
    then have "map_of (Services ?r) k = None"
      unfolding S' by (rule fold_update_map_of_None[OF injS])
    with None show ?thesis by simp
  next
    case (Some v)
    then have "(k, v) \<in> set ?S" by (rule map_of_SomeD)
    then have "?g v \<in> set ?snap" and "sid (?g v) = k"
      using kS sidg by (force simp: snap)+
    then have "map_of (Services ?r) k = Some (?g v)"
      unfolding S' using fold_update_map_of[OF injS, of k "?g v"] by simp
    with Some show ?thesis by simp
  qed
  \<comment> \<open>destinations\<close>
  let ?L = "concat (map svc_Destinations ?snap)"
  have setL: "set ?L = snd ` set ?D"
  proof
    show "set ?L \<subseteq> snd ` set ?D"
      by (auto simp: snap getDestinations_def)
  next
    show "snd ` set ?D \<subseteq> set ?L"
    proof
      fix d assume "d \<in> snd ` set ?D"
      then obtain k where kd: "(k, d) \<in> set ?D" by auto
      with no have "dst_ServiceId d \<in> sid ` snd ` set ?S"
        by (auto simp: no_orphans_def list_all_iff)
      then obtain k' v where "(k', v) \<in> set ?S" "dst_ServiceId d = sid v" by auto
      with kd show "d \<in> set ?L"
        by (force simp: snap getDestinations_def)
    qed
  qed
  have injD: "\<forall>x\<in>set ?L. \<forall>y\<in>set ?L. did x = did y \<longrightarrow> x = y"
    unfolding setL using kD dD by (metis (no_types, lifting) eq_key_imp_eq_value imageE prod.collapse)
  have mD: "map_of (Destinations ?r) = map_of ?D"
  proof
    fix k
    show "map_of (Destinations ?r) k = map_of ?D k"
    proof (cases "map_of ?D k")
      case None
      then have "k \<notin> fst ` set ?D" by (simp add: map_of_eq_None_iff)
      then have "\<And>d. d \<in> set ?L \<Longrightarrow> did d \<noteq> k"
        unfolding setL using kD by force
      then have "map_of (Destinations ?r) k = None"
        unfolding D' by (rule fold_update_map_of_None[OF injD])
      with None show ?thesis by simp
    next
      case (Some d)
      then have "(k, d) \<in> set ?D" by (rule map_of_SomeD)
      then have "d \<in> set ?L" and "did d = k"
        unfolding setL using kD by force+
      then have "map_of (Destinations ?r) k = Some d"
        unfolding D' using fold_update_map_of[OF injD, of k d] by simp
      with Some show ?thesis by simp
    qed
  qed
  have setD: "set (Destinations ?r) = set ?D"
    using dD' dD mD by (rule map_of_eq_set)
  have c1: "GetDestination ?r name = GetDestination s name" for name
    by (simp add: GetDestination_def index_Destination_def mD)
  have obs: "unordered (getDestinations sid ?r (?g v)) = unordered (?g v)" for v
    using ign by (simp add: unordered_def getDestinations_def setD)
  have c2: "map_sum id unordered (GetService sid ?r name) = map_sum id unordered (GetService sid s name)" for name
  proof (cases "map_of ?S name")
    case None
    then show ?thesis by (simp add: GetService_def index_Service_def mS zero_Service_def)
  next
    case (Some v)
    have "svc_Name (?g v) = svc_Name v" by (simp add: getDestinations_def)
    with Some show ?thesis
      by (simp add: GetService_def index_Service_def mS obs)
  qed
  have "set (Services ?r) = (\<lambda>(k, v). (k, ?g v)) ` set ?S"
  proof -
    have "map_of (Services ?r) = map_of (map (\<lambda>(k, v). (k, ?g v)) ?S)"
      by (rule ext) (simp add: mS map_of_map)
    moreover have "distinct (map fst (map (\<lambda>(k, v). (k, ?g v)) ?S))"
      using dS by (simp add: case_prod_unfold comp_def)
    ultimately have "set (Services ?r) = set (map (\<lambda>(k, v). (k, ?g v)) ?S)"
      using dS' by (intro map_of_eq_set)
    then show ?thesis by simp
  qed
  then have "set (GetServices sid ?r) = (\<lambda>v. getDestinations sid ?r (?g v)) ` snd ` set ?S"
    by (force simp: GetServices_def image_iff)
  then have c3: "unordered ` set (GetServices sid ?r) = unordered ` set (GetServices sid s)"
    by (simp add: image_image obs GetServices_def case_prod_unfold)
  from c1 c2 c3 show ?thesis by blast
qed

text \<open>
  The catalog holding \<open>web\<close> and \<open>web_1\<close> has no orphan; its snapshot is \<open>web\<close> with
  \<open>web_1\<close> inlined, and the restored catalog returns both.
\<close>

theorem snapshot_restore_roundtrip_witness:
  "catalog_wf svc_Name dst_Name web_catalog \<and> no_orphans svc_Name web_catalog
   \<and> (\<forall>v ds. svc_Name (v\<lparr>svc_Destinations := ds\<rparr>) = svc_Name v)
   \<and> Snapshot svc_Name web_catalog = [web\<lparr>svc_Destinations := [web_1]\<rparr>]
   \<and> GetDestination (restore_Services svc_Name dst_Name (Snapshot svc_Name web_catalog) NewFusisState) ''web-1''
       = Inr web_1
   \<and> map_sum id unordered
        (GetService svc_Name (restore_Services svc_Name dst_Name (Snapshot svc_Name web_catalog) NewFusisState) ''web'')
       = Inr (web, {web_1})"
proof -
  have no: "no_orphans svc_Name web_catalog"
    by (simp add: no_orphans_def web_catalog_def AddService_def AddDestination_def NewFusisState_def
        web_def web_1_def)
  have ign: "\<forall>v ds. svc_Name (v\<lparr>svc_Destinations := ds\<rparr>) = svc_Name v"
    by simp
  have snap: "Snapshot svc_Name web_catalog = [web\<lparr>svc_Destinations := [web_1]\<rparr>]"
    by (simp add: Snapshot_def GetServices_def getDestinations_def web_catalog_def AddService_def
        AddDestination_def NewFusisState_def web_def web_1_def)
  have d: "GetDestination web_catalog ''web-1'' = Inr web_1"
    by (simp add: GetDestination_def index_Destination_def web_catalog_def AddService_def
        AddDestination_def NewFusisState_def web_1_def)
  have g: "map_sum id unordered (GetService svc_Name web_catalog ''web'') = Inr (web, {web_1})"
    by (simp add: GetService_def index_Service_def getDestinations_def unordered_def
        web_catalog_def AddService_def AddDestination_def NewFusisState_def web_def web_1_def)
  from snapshot_restore_roundtrip [OF catalog_wf_web_catalog no ign] d g
  have "GetDestination (restore_Services svc_Name dst_Name (Snapshot svc_Name web_catalog) NewFusisState) ''web-1''
       = Inr web_1"
    and "map_sum id unordered
        (GetService svc_Name (restore_Services svc_Name dst_Name (Snapshot svc_Name web_catalog) NewFusisState) ''web'')
       = Inr (web, {web_1})"
    by simp_all
  with catalog_wf_web_catalog no ign snap show ?thesis by simp
qed

text \<open>
  C5 as stated fails on a catalog with an orphan: \<open>web_1\<close> stored without its Service
  is in no Service of the snapshot, so the restored catalog does not have it.
\<close>

theorem restore_loses_orphans_counterexample:
  "catalog_wf svc_Name dst_Name orphan_catalog
   \<and> GetDestination orphan_catalog ''web-1'' = Inr web_1
   \<and> Snapshot svc_Name orphan_catalog = []
   \<and> GetDestination (restore_Services svc_Name dst_Name (Snapshot svc_Name orphan_catalog) NewFusisState)
        ''web-1'' = Inl ErrDestinationNotFound"
  by (simp add: catalog_wf_def orphan_catalog_def Snapshot_def GetServices_def restore_Services_def
      GetDestination_def index_Destination_def AddDestination_def NewFusisState_def web_1_def
      zero_Destination_def)


section \<open>Properties of the provider\<close>

lemma toAddMap_fold_keys:
  "fst ` set (fold (\<lambda>s m. AList.update (svc_Host s) () m) xs m0) = svc_Host ` set xs \<union> fst ` set m0"
  by (induction xs arbitrary: m0) (auto simp: dom_update)

lemma toAddMap_fold_distinct:
  "distinct (map fst m0) \<Longrightarrow> distinct (map fst (fold (\<lambda>s m. AList.update (svc_Host s) () m) xs m0))"
  by (induction xs arbitrary: m0) (auto simp: distinct_update)

lemma toAddMap_of_keys: "fst ` set (toAddMap_of xs) = svc_Host ` set xs"
  by (simp add: toAddMap_of_def toAddMap_fold_keys)

lemma toAddMap_of_distinct: "distinct (map fst (toAddMap_of xs))"
  by (simp add: toAddMap_of_def toAddMap_fold_distinct)

lemma keys_delete: "fst ` set (AList.delete k al) = fst ` set al - {k}"
  by (induction al) auto

lemma split_oldVIPs_result:
  "distinct old \<Longrightarrow> distinct (map fst m) \<Longrightarrow>
   split_oldVIPs old (m, r) = (m', r') \<Longrightarrow>
     distinct (map fst m') \<and> fst ` set m' = fst ` set m - set old \<and>
     r' = r @ filter (\<lambda>ip. ip \<notin> fst ` set m) old"
proof (induction old arbitrary: m r)
  case Nil
  then show ?case by simp
next
  case (Cons ip ips)
  show ?case
  proof (cases "map_of m ip \<noteq> None")
    case True
    then have k: "ip \<in> fst ` set m" by (simp add: map_of_eq_None_iff)
    from Cons.prems True have "split_oldVIPs ips (AList.delete ip m, r) = (m', r')" by simp
    then have ih: "distinct (map fst m') \<and> fst ` set m' = fst ` set (AList.delete ip m) - set ips \<and>
      r' = r @ filter (\<lambda>x. x \<notin> fst ` set (AList.delete ip m)) ips"
      using Cons.prems by (intro Cons.IH) (auto simp: distinct_delete)
    have "filter (\<lambda>x. x \<notin> fst ` set (AList.delete ip m)) ips = filter (\<lambda>x. x \<notin> fst ` set m) ips"
      using Cons.prems(1) by (intro filter_cong) (auto simp: keys_delete)
    with ih k show ?thesis by (auto simp: keys_delete)
  next
    case False
    then have k: "ip \<notin> fst ` set m" by (simp add: map_of_eq_None_iff)
    from Cons.prems False have "split_oldVIPs ips (m, r @ [ip]) = (m', r')" by simp
    then have ih: "distinct (map fst m') \<and> fst ` set m' = fst ` set m - set ips \<and>
      r' = (r @ [ip]) @ filter (\<lambda>x. x \<notin> fst ` set m) ips"
      using Cons.prems by (intro Cons.IH) auto
    with k show ?thesis by auto
  qed
qed

lemma add_errors_Nil: "add_errors w ips = [] \<longleftrightarrow> (\<forall>ip\<in>set ips. AddIp w (ip @ ''/32'') (iface w) = None)"
  by (induction ips) (auto simp: add_errors_def split: option.splits)

lemma del_errors_Nil: "del_errors w ips = [] \<longleftrightarrow> (\<forall>ip\<in>set ips. DelIp w (ip @ ''/32'') (iface w) = None)"
  by (induction ips) (auto simp: del_errors_def split: option.splits)

lemma hosts_GetServices: "svc_Host ` set (GetServices sid s) = svc_Host ` snd ` set (Services s)"
  by (auto simp: GetServices_def getDestinations_def image_iff split: prod.splits) force+

lemma distinct_set_singleton: "set xs = {x} \<Longrightarrow> distinct xs \<Longrightarrow> xs = [x]"
proof (cases xs)
  case Nil
  assume "set xs = {x}"
  with Nil show ?thesis by simp
next
  case (Cons y ys)
  assume a: "set xs = {x}" and d: "distinct xs"
  from a Cons have "y = x" and "set ys \<subseteq> {x}" by auto
  moreover from d Cons have "y \<notin> set ys" by simp
  ultimately have "ys = []" by (cases ys) auto
  with Cons \<open>y = x\<close> show ?thesis by simp
qed

lemma SyncVIPs_calls_and_errors:
  assumes "GetFusisVipsIps w (iface w) = Inr oldVIPs" and "distinct oldVIPs"
  shows "\<exists>adds dels.
     fst (SyncVIPs w state) =
       Call_GetFusisVipsIps (iface w)
         # map (\<lambda>ip. Call_AddIp (ip @ ''/32'') (iface w)) adds
         @ map (\<lambda>ip. Call_DelIp (ip @ ''/32'') (iface w)) dels
     \<and> distinct adds \<and> set adds = svc_Host ` set (GetServices (Service_GetId w) state) - set oldVIPs
     \<and> distinct dels \<and> set dels = set oldVIPs - svc_Host ` set (GetServices (Service_GetId w) state)
     \<and> fst (SyncVIPs (w\<lparr>AddIp := a, DelIp := d\<rparr>) state) = 
         Call_GetFusisVipsIps (iface w)
         # map (\<lambda>ip. Call_AddIp (ip @ ''/32'') (iface w)) adds
         @ map (\<lambda>ip. Call_DelIp (ip @ ''/32'') (iface w)) dels
     \<and> snd (SyncVIPs w state) =
         (if add_errors w adds @ del_errors w dels = [] then None
          else Some (Errorf (''multiple errors: '' @ strings_Join (add_errors w adds @ del_errors w dels) '' | '')))
     \<and> (snd (SyncVIPs w state) = None \<longleftrightarrow>
          (\<forall>ip\<in>set adds. AddIp w (ip @ ''/32'') (iface w) = None) \<and>
          (\<forall>ip\<in>set dels. DelIp w (ip @ ''/32'') (iface w) = None))"
proof -
  let ?svcs = "GetServices (Service_GetId w) state"
  obtain m' r' where sp: "split_oldVIPs oldVIPs (toAddMap_of ?svcs, []) = (m', r')"
    by (cases "split_oldVIPs oldVIPs (toAddMap_of ?svcs, [])") 
  from split_oldVIPs_result[OF assms(2) toAddMap_of_distinct sp]
  have d: "distinct (map fst m')" and k: "fst ` set m' = svc_Host ` set ?svcs - set oldVIPs"
    and r: "r' = filter (\<lambda>ip. ip \<notin> svc_Host ` set ?svcs) oldVIPs"
    by (simp_all add: toAddMap_of_keys)
  have calls: "fst (SyncVIPs w state) = Call_GetFusisVipsIps (iface w)
         # map (\<lambda>ip. Call_AddIp (ip @ ''/32'') (iface w)) (map fst m')
         @ map (\<lambda>ip. Call_DelIp (ip @ ''/32'') (iface w)) r'"
    using assms(1) sp by (simp add: SyncVIPs_def Let_def)
  have calls': "fst (SyncVIPs (w\<lparr>AddIp := a, DelIp := d\<rparr>) state) = Call_GetFusisVipsIps (iface w)
         # map (\<lambda>ip. Call_AddIp (ip @ ''/32'') (iface w)) (map fst m')
         @ map (\<lambda>ip. Call_DelIp (ip @ ''/32'') (iface w)) r'"
    using assms(1) sp by (simp add: SyncVIPs_def Let_def)
  have err: "snd (SyncVIPs w state) =
         (if add_errors w (map fst m') @ del_errors w r' = [] then None
          else Some (Errorf (''multiple errors: '' @ strings_Join (add_errors w (map fst m') @ del_errors w r') '' | '')))"
    using assms(1) sp by (simp add: SyncVIPs_def Let_def)
  have none: "snd (SyncVIPs w state) = None \<longleftrightarrow>
          (\<forall>ip\<in>set (map fst m'). AddIp w (ip @ ''/32'') (iface w) = None) \<and>
          (\<forall>ip\<in>set r'. DelIp w (ip @ ''/32'') (iface w) = None)"
    unfolding err using add_errors_Nil[of w "map fst m'"] del_errors_Nil[of w r'] by auto
  have "distinct r'" and "set r' = set oldVIPs - svc_Host ` set ?svcs"
    using assms(2) r by auto
  with d k calls calls' err none show ?thesis
    by (intro exI[of _ "map fst m'"] exI[of _ r']) (simp only: set_map simp_thms)
qed

lemma strings_Join_butlast:
  "xs \<noteq> [] \<Longrightarrow> strings_Join xs sep = concat (map (\<lambda>m. m @ sep) (butlast xs)) @ last xs"
  by (induction xs sep rule: strings_Join.induct) simp_all

lemma add_errors_map_filter:
  "add_errors w ips =
     List.map_filter (\<lambda>ip. map_option (\<lambda>e. ''error adding ip '' @ ip @ '': '' @ e)
                               (AddIp w (ip @ ''/32'') (iface w))) ips"
  by (induction ips) (simp_all add: add_errors_def List.map_filter_simps split: option.splits)

lemma del_errors_map_filter:
  "del_errors w ips =
     List.map_filter (\<lambda>ip. map_option (\<lambda>e. ''error deleting ip '' @ ip @ '': '' @ e)
                               (DelIp w (ip @ ''/32'') (iface w))) ips"
  by (induction ips) (simp_all add: del_errors_def List.map_filter_simps split: option.splits)

text \<open>
  C4. When the listing of the interface succeeds with a set of addresses, \<^verbatim>\<open>SyncVIPs\<close>
  calls \<^verbatim>\<open>AddIp\<close> once, with the suffix \<^verbatim>\<open>/32\<close>, for each host of a Service that is not
  bound, and \<^verbatim>\<open>DelIp\<close> once for each bound address that is the host of no Service, and
  makes no other call. The calls are the same whatever \<^verbatim>\<open>AddIp\<close> and \<^verbatim>\<open>DelIp\<close>
  answer: a failure stops nothing. Every failed call contributes one message, the adds
  first and in the order of the calls; the error returned is \<^verbatim>\<open>multiple errors: \<close>
  followed by all the messages with \<^verbatim>\<open> | \<close> between them, and the result is \<^verbatim>\<open>nil\<close>
  exactly when no call fails.
\<close>

theorem SyncVIPs_symmetric_difference:
  assumes "GetFusisVipsIps w (iface w) = Inr oldVIPs" and "distinct oldVIPs"
  shows "\<exists>adds dels errors.
     fst (SyncVIPs w state) =
       Call_GetFusisVipsIps (iface w)
         # map (\<lambda>ip. Call_AddIp (ip @ ''/32'') (iface w)) adds
         @ map (\<lambda>ip. Call_DelIp (ip @ ''/32'') (iface w)) dels
     \<and> distinct adds \<and> set adds = svc_Host ` set (GetServices (Service_GetId w) state) - set oldVIPs
     \<and> distinct dels \<and> set dels = set oldVIPs - svc_Host ` set (GetServices (Service_GetId w) state)
     \<and> fst (SyncVIPs (w\<lparr>AddIp := a, DelIp := d\<rparr>) state) =
         Call_GetFusisVipsIps (iface w)
         # map (\<lambda>ip. Call_AddIp (ip @ ''/32'') (iface w)) adds
         @ map (\<lambda>ip. Call_DelIp (ip @ ''/32'') (iface w)) dels
     \<and> errors =
         List.map_filter (\<lambda>ip. map_option (\<lambda>e. ''error adding ip '' @ ip @ '': '' @ e)
                                   (AddIp w (ip @ ''/32'') (iface w))) adds
         @ List.map_filter (\<lambda>ip. map_option (\<lambda>e. ''error deleting ip '' @ ip @ '': '' @ e)
                                   (DelIp w (ip @ ''/32'') (iface w))) dels
     \<and> snd (SyncVIPs w state) =
         (if errors = [] then None
          else Some (Errorf (''multiple errors: ''
                 @ concat (map (\<lambda>m. m @ '' | '') (butlast errors)) @ last errors)))
     \<and> (snd (SyncVIPs w state) = None \<longleftrightarrow>
          (\<forall>ip\<in>set adds. AddIp w (ip @ ''/32'') (iface w) = None) \<and>
          (\<forall>ip\<in>set dels. DelIp w (ip @ ''/32'') (iface w) = None))"
proof -
  from SyncVIPs_calls_and_errors [OF assms, where state=state and a=a and d=d]
  obtain adds dels where
    calls: "fst (SyncVIPs w state) =
       Call_GetFusisVipsIps (iface w)
         # map (\<lambda>ip. Call_AddIp (ip @ ''/32'') (iface w)) adds
         @ map (\<lambda>ip. Call_DelIp (ip @ ''/32'') (iface w)) dels"
    and adds: "distinct adds" "set adds = svc_Host ` set (GetServices (Service_GetId w) state) - set oldVIPs"
    and dels: "distinct dels" "set dels = set oldVIPs - svc_Host ` set (GetServices (Service_GetId w) state)"
    and calls': "fst (SyncVIPs (w\<lparr>AddIp := a, DelIp := d\<rparr>) state) =
         Call_GetFusisVipsIps (iface w)
         # map (\<lambda>ip. Call_AddIp (ip @ ''/32'') (iface w)) adds
         @ map (\<lambda>ip. Call_DelIp (ip @ ''/32'') (iface w)) dels"
    and err: "snd (SyncVIPs w state) =
         (if add_errors w adds @ del_errors w dels = [] then None
          else Some (Errorf (''multiple errors: '' @ strings_Join (add_errors w adds @ del_errors w dels) '' | '')))"
    and none: "snd (SyncVIPs w state) = None \<longleftrightarrow>
          (\<forall>ip\<in>set adds. AddIp w (ip @ ''/32'') (iface w) = None) \<and>
          (\<forall>ip\<in>set dels. DelIp w (ip @ ''/32'') (iface w) = None)"
    by (elim exE conjE)
  let ?errors = "add_errors w adds @ del_errors w dels"
  have e1: "?errors =
         List.map_filter (\<lambda>ip. map_option (\<lambda>e. ''error adding ip '' @ ip @ '': '' @ e)
                                   (AddIp w (ip @ ''/32'') (iface w))) adds
         @ List.map_filter (\<lambda>ip. map_option (\<lambda>e. ''error deleting ip '' @ ip @ '': '' @ e)
                                   (DelIp w (ip @ ''/32'') (iface w))) dels"
    by (simp only: add_errors_map_filter del_errors_map_filter)
  have e2: "snd (SyncVIPs w state) =
         (if ?errors = [] then None
          else Some (Errorf (''multiple errors: ''
                 @ concat (map (\<lambda>m. m @ '' | '') (butlast ?errors)) @ last ?errors)))"
  proof (cases "?errors = []")
    case True
    then show ?thesis unfolding err by simp
  next
    case False
    then show ?thesis unfolding err by (simp add: strings_Join_butlast[OF False])
  qed
  from calls adds dels calls' e1 e2 none show ?thesis
    by (intro exI[of _ adds] exI[of _ dels] exI[of _ ?errors] conjI)
qed

text \<open>
  A leader whose interface binds \<open>10.0.0.9\<close> and refuses every call, with \<open>web\<close> in the
  catalog: \<open>10.0.0.1\<close> is added, \<open>10.0.0.9\<close> is removed although the add failed, and the
  error carries both failures.
\<close>

theorem SyncVIPs_symmetric_difference_witness:
  "GetFusisVipsIps refusing_world (iface refusing_world) = Inr [''10.0.0.9''] \<and> distinct [''10.0.0.9'']
   \<and> svc_Host ` set (GetServices (Service_GetId refusing_world) (AddService svc_Name NewFusisState web))
        = {''10.0.0.1''}
   \<and> fst (SyncVIPs refusing_world (AddService svc_Name NewFusisState web)) =
        [Call_GetFusisVipsIps ''eth0'', Call_AddIp ''10.0.0.1/32'' ''eth0'',
         Call_DelIp ''10.0.0.9/32'' ''eth0'']
   \<and> snd (SyncVIPs refusing_world (AddService svc_Name NewFusisState web)) =
        Some (Errorf ''multiple errors: error adding ip 10.0.0.1: operation not permitted | error deleting ip 10.0.0.9: cannot assign requested address'')"
proof -
  have a: "GetFusisVipsIps refusing_world (iface refusing_world) = Inr [''10.0.0.9'']"
    by (simp add: refusing_world_def leader_world_def)
  have b: "distinct [''10.0.0.9'']" by simp
  have h: "svc_Host ` set (GetServices (Service_GetId refusing_world) (AddService svc_Name NewFusisState web))
        = {''10.0.0.1''}"
    by (simp add: GetServices_def getDestinations_def AddService_def NewFusisState_def web_def)
  let ?hosts = "svc_Host ` set (GetServices (Service_GetId refusing_world) (AddService svc_Name NewFusisState web))"
  from SyncVIPs_symmetric_difference
    [OF a b, where state="AddService svc_Name NewFusisState web"
       and a="AddIp refusing_world" and d="DelIp refusing_world"]
  obtain adds dels errors where
    calls: "fst (SyncVIPs refusing_world (AddService svc_Name NewFusisState web)) =
       Call_GetFusisVipsIps (iface refusing_world)
         # map (\<lambda>ip. Call_AddIp (ip @ ''/32'') (iface refusing_world)) adds
         @ map (\<lambda>ip. Call_DelIp (ip @ ''/32'') (iface refusing_world)) dels"
    and adds: "distinct adds" "set adds = ?hosts - set [''10.0.0.9'']"
    and dels: "distinct dels" "set dels = set [''10.0.0.9''] - ?hosts"
    and errors: "errors =
         List.map_filter (\<lambda>ip. map_option (\<lambda>e. ''error adding ip '' @ ip @ '': '' @ e)
                                   (AddIp refusing_world (ip @ ''/32'') (iface refusing_world))) adds
         @ List.map_filter (\<lambda>ip. map_option (\<lambda>e. ''error deleting ip '' @ ip @ '': '' @ e)
                                   (DelIp refusing_world (ip @ ''/32'') (iface refusing_world))) dels"
    and err: "snd (SyncVIPs refusing_world (AddService svc_Name NewFusisState web)) =
         (if errors = [] then None
          else Some (Errorf (''multiple errors: ''
                 @ concat (map (\<lambda>m. m @ '' | '') (butlast errors)) @ last errors)))"
    by (elim exE conjE)
  from adds(2) have "set adds = {''10.0.0.1''}" unfolding h by simp
  then have A: "adds = [''10.0.0.1'']"
    using adds(1) by (rule distinct_set_singleton)
  from dels(2) have "set dels = {''10.0.0.9''}" unfolding h by simp
  then have D: "dels = [''10.0.0.9'']"
    using dels(1) by (rule distinct_set_singleton)
  have E: "errors = [''error adding ip 10.0.0.1: operation not permitted'',
                     ''error deleting ip 10.0.0.9: cannot assign requested address'']"
    unfolding errors A D
    by (simp add: refusing_world_def leader_world_def List.map_filter_simps)
  have c: "fst (SyncVIPs refusing_world (AddService svc_Name NewFusisState web)) =
        [Call_GetFusisVipsIps ''eth0'', Call_AddIp ''10.0.0.1/32'' ''eth0'',
         Call_DelIp ''10.0.0.9/32'' ''eth0'']"
    unfolding calls A D by (simp add: refusing_world_def leader_world_def)
  have e: "snd (SyncVIPs refusing_world (AddService svc_Name NewFusisState web)) =
        Some (Errorf ''multiple errors: error adding ip 10.0.0.1: operation not permitted | error deleting ip 10.0.0.9: cannot assign requested address'')"
    unfolding err E by simp
  from a b h c e show ?thesis by (intro conjI)
qed

section \<open>Properties of Apply and the reconciliation it waits for\<close>

lemma fuel_5: "5 \<le> n \<Longrightarrow> \<exists>m. n = Suc (Suc (Suc (Suc (Suc m))))"
  by (rule exI[of _ "n - 5"]) simp

lemma fuel_2: "2 \<le> n \<Longrightarrow> \<exists>m. n = Suc (Suc m)"
  by (rule exI[of _ "n - 2"]) simp

lemma step_publish:
  "fsm c = Fsm_Send \<Longrightarrow> watch c = Watch_Recv \<Longrightarrow>
   step w c = Some (c\<lparr>fsm := Fsm_Recv, watch := Watch_Handle, published := published c + 1\<rparr>)"
  by (simp add: step_def)

lemma step_handle:
  "watch c = Watch_Handle \<Longrightarrow>
   step w c = Some (c\<lparr>watch := Watch_Reply (snd (handleStateChange w (State c))),
                      trace := trace c @ fst (handleStateChange w (State c))\<rparr>)"
  by (simp add: step_def case_prod_unfold Let_def split: fsm_pc.splits)

lemma step_reply:
  "fsm c = Fsm_Recv \<Longrightarrow> watch c = Watch_Reply err \<Longrightarrow>
   step w c = Some (c\<lparr>fsm := Fsm_Return err, watch := Watch_Recv\<rparr>)"
  by (simp add: step_def)

lemma step_returned:
  "fsm c = Fsm_Return err \<Longrightarrow> watch c = Watch_Recv \<Longrightarrow> step w c = None"
  by (simp add: step_def fsm_step_def)

lemma step_panicked:
  "fsm c = Fsm_Panic p \<Longrightarrow> watch c = Watch_Recv \<Longrightarrow> step w c = None"
  by (simp add: step_def fsm_step_def)

lemma step_blocked:
  "fsm c = Fsm_Recv \<Longrightarrow> watch c = Watch_Recv \<Longrightarrow> step w c = None"
  by (simp add: step_def fsm_step_def)

lemma step_leaves_Recv:
  "fsm c = Fsm_Recv \<Longrightarrow> step w c = Some c' \<Longrightarrow> fsm c' \<noteq> Fsm_Recv \<Longrightarrow>
   \<exists>err. watch c = Watch_Reply err \<and> fsm c' = Fsm_Return err"
  by (cases "watch c") (auto simp: step_def fsm_step_def case_prod_unfold Let_def)

lemma step_Apply:
  "step w (Apply s l) =
     (case json_Unmarshal w (Data l) of
        Inl err \<Rightarrow> Some ((Apply s l)\<lparr>fsm := Fsm_Panic (Panic (''failed to unmarshal command: '' @ err))\<rparr>)
      | Inr cmd \<Rightarrow>
          (case apply_Command (Service_GetId w) (Destination_GetId w) s cmd of
             Inl p \<Rightarrow> Some ((Apply s l)\<lparr>fsm := Fsm_Panic p\<rparr>)
           | Inr s' \<Rightarrow> Some ((Apply s l)\<lparr>State := s', fsm := Fsm_Send\<rparr>)))"
  by (simp add: step_def fsm_step_def Apply_def split: sum.splits)

lemma run_step: "step w c = Some c' \<Longrightarrow> run w (Suc n) c = run w n c'"
  by simp

lemma run_stop: "step w c = None \<Longrightarrow> run w (Suc n) c = Some c"
  by simp

lemma run_after_mutation:
  assumes "5 \<le> n" and "step w (Apply s l) = Some ((Apply s l)\<lparr>State := s', fsm := Fsm_Send\<rparr>)"
  shows "run w n (Apply s l) =
     Some \<lparr>State = s', fsm = Fsm_Return (snd (handleStateChange w s')), watch = Watch_Recv,
           published = 1, trace = fst (handleStateChange w s')\<rparr>"
proof -
  from assms(1) obtain m where n: "n = Suc (Suc (Suc (Suc (Suc m))))"
    using fuel_5 by blast
  let ?c1 = "(Apply s l)\<lparr>State := s', fsm := Fsm_Send\<rparr>"
  let ?c2 = "?c1\<lparr>fsm := Fsm_Recv, watch := Watch_Handle, published := published ?c1 + 1\<rparr>"
  let ?c3 = "?c2\<lparr>watch := Watch_Reply (snd (handleStateChange w (State ?c2))),
                 trace := trace ?c2 @ fst (handleStateChange w (State ?c2))\<rparr>"
  let ?c4 = "?c3\<lparr>fsm := Fsm_Return (snd (handleStateChange w (State ?c2))), watch := Watch_Recv\<rparr>"
  have "run w n (Apply s l) = run w (Suc (Suc (Suc (Suc m)))) ?c1"
    unfolding n using assms(2) by (rule run_step)
  also have "\<dots> = run w (Suc (Suc (Suc m))) ?c2"
    by (rule run_step, rule step_publish) (simp_all add: Apply_def)
  also have "\<dots> = run w (Suc (Suc m)) ?c3"
    by (rule run_step, rule step_handle) (simp add: Apply_def)
  also have "\<dots> = run w (Suc m) ?c4"
    by (rule run_step, rule step_reply) (simp_all add: Apply_def)
  also have "\<dots> = Some ?c4"
    by (rule run_stop, rule step_returned) (simp_all add: Apply_def)
  finally show ?thesis by (simp add: Apply_def)
qed

lemma apply_Command_payload:
  "carries_payload c \<Longrightarrow>
   apply_Command sid did s c =
     Inr (if Op c = AddServiceOp then AddService sid s (the (Service c))
          else if Op c = DelServiceOp then DeleteService sid s (the (Service c))
          else if Op c = AddDestinationOp then AddDestination did s (the (Destination c))
          else if Op c = DelDestinationOp then DeleteDestination did s (the (Destination c))
          else s)"
  by (auto simp: carries_payload_def apply_Command_def AddServiceOp_def DelServiceOp_def
      AddDestinationOp_def DelDestinationOp_def split: if_splits)

lemma apply_Command_no_payload:
  "\<not> carries_payload c \<Longrightarrow> apply_Command sid did s c = Inl NilPointerDereference"
  by (auto simp: carries_payload_def apply_Command_def AddServiceOp_def DelServiceOp_def
      AddDestinationOp_def DelDestinationOp_def split: if_splits)

lemma state_methods_maps:
  "map_of (Services (AddService sid s svc)) = (map_of (Services s))(sid svc \<mapsto> svc)"
  "Destinations (AddService sid s svc) = Destinations s"
  "map_of (Services (DeleteService sid s svc)) = (map_of (Services s))(sid svc := None)"
  "Destinations (DeleteService sid s svc) = Destinations s"
  "map_of (Destinations (AddDestination did s dst)) = (map_of (Destinations s))(did dst \<mapsto> dst)"
  "Services (AddDestination did s dst) = Services s"
  "map_of (Destinations (DeleteDestination did s dst)) = (map_of (Destinations s))(did dst := None)"
  "Services (DeleteDestination did s dst) = Services s"
  by (simp_all add: AddService_def DeleteService_def AddDestination_def DeleteDestination_def
      update_conv' delete_conv')

text \<open>
  C1, as amended. Let the data of a log entry decode to a Command that carries the
  Service or the Destination its op works on. Then \<^verbatim>\<open>Apply\<close>, entered with the watcher at
  its receive, runs to its \<^verbatim>\<open>return\<close>. The catalog is changed as the op says: AddServiceOp
  stores the Service under its id, DelServiceOp removes that key, AddDestinationOp and
  DelDestinationOp do the same in the destinations map, each leaves the other map alone,
  and any other op changes nothing. One request has been published on \<^verbatim>\<open>StateCh\<close>, the
  watcher has run \<^verbatim>\<open>handleStateChange\<close> once on the new catalog, and the value returned
  is the error \<^verbatim>\<open>handleStateChange\<close> returned, which is that of \<^verbatim>\<open>SyncState\<close>. While
  \<^verbatim>\<open>Apply\<close> waits on the reply channel nothing moves it but the watcher's reply, and
  with no reply pending it stays blocked.
\<close>

theorem Apply_publishes_once_and_returns_reply:
  assumes "json_Unmarshal w (Data l) = Inr c" and "carries_payload c" and "5 \<le> n"
  shows "\<exists>s'. apply_Command (Service_GetId w) (Destination_GetId w) s c = Inr s'
     \<and> (\<forall>svc. Op c = AddServiceOp \<and> Service c = Some svc \<longrightarrow>
           s' = AddService (Service_GetId w) s svc
           \<and> map_of (Services s') = (map_of (Services s))(Service_GetId w svc \<mapsto> svc)
           \<and> Destinations s' = Destinations s)
     \<and> (\<forall>svc. Op c = DelServiceOp \<and> Service c = Some svc \<longrightarrow>
           s' = DeleteService (Service_GetId w) s svc
           \<and> map_of (Services s') = (map_of (Services s))(Service_GetId w svc := None)
           \<and> Destinations s' = Destinations s)
     \<and> (\<forall>dst. Op c = AddDestinationOp \<and> Destination c = Some dst \<longrightarrow>
           s' = AddDestination (Destination_GetId w) s dst
           \<and> map_of (Destinations s') = (map_of (Destinations s))(Destination_GetId w dst \<mapsto> dst)
           \<and> Services s' = Services s)
     \<and> (\<forall>dst. Op c = DelDestinationOp \<and> Destination c = Some dst \<longrightarrow>
           s' = DeleteDestination (Destination_GetId w) s dst
           \<and> map_of (Destinations s') = (map_of (Destinations s))(Destination_GetId w dst := None)
           \<and> Services s' = Services s)
     \<and> (Op c \<noteq> 0 \<and> Op c \<noteq> 1 \<and> Op c \<noteq> 2 \<and> Op c \<noteq> 3 \<longrightarrow> s' = s)
     \<and> run w n (Apply s l) =
         Some \<lparr>State = s', fsm = Fsm_Return (SyncState w s'), watch = Watch_Recv,
               published = 1, trace = fst (handleStateChange w s')\<rparr>
     \<and> snd (handleStateChange w s') = SyncState w s'
     \<and> (\<forall>a a'. fsm a = Fsm_Recv \<and> step w a = Some a' \<and> fsm a' \<noteq> Fsm_Recv
            \<longrightarrow> (\<exists>err. watch a = Watch_Reply err \<and> fsm a' = Fsm_Return err))
     \<and> (\<forall>a. fsm a = Fsm_Recv \<and> watch a = Watch_Recv \<longrightarrow> step w a = None)"
proof -
  let ?sid = "Service_GetId w" and ?did = "Destination_GetId w"
  obtain s' where s': "apply_Command ?sid ?did s c = Inr s'"
    using apply_Command_payload[OF assms(2)] by blast
  have ops: "(\<forall>svc. Op c = AddServiceOp \<and> Service c = Some svc \<longrightarrow> s' = AddService ?sid s svc)
     \<and> (\<forall>svc. Op c = DelServiceOp \<and> Service c = Some svc \<longrightarrow> s' = DeleteService ?sid s svc)
     \<and> (\<forall>dst. Op c = AddDestinationOp \<and> Destination c = Some dst \<longrightarrow> s' = AddDestination ?did s dst)
     \<and> (\<forall>dst. Op c = DelDestinationOp \<and> Destination c = Some dst \<longrightarrow> s' = DeleteDestination ?did s dst)
     \<and> (Op c \<noteq> 0 \<and> Op c \<noteq> 1 \<and> Op c \<noteq> 2 \<and> Op c \<noteq> 3 \<longrightarrow> s' = s)"
    using s' apply_Command_payload[OF assms(2), of ?sid ?did s]
    by (auto simp: AddServiceOp_def DelServiceOp_def AddDestinationOp_def DelDestinationOp_def)
  have "step w (Apply s l) = Some ((Apply s l)\<lparr>State := s', fsm := Fsm_Send\<rparr>)"
    by (simp add: step_Apply assms(1) s')
  then have r: "run w n (Apply s l) =
     Some \<lparr>State = s', fsm = Fsm_Return (snd (handleStateChange w s')), watch = Watch_Recv,
           published = 1, trace = fst (handleStateChange w s')\<rparr>"
    by (rule run_after_mutation[OF assms(3)])
  have h: "snd (handleStateChange w s') = SyncState w s'"
    by (simp add: handleStateChange_def)
  from ops have ops': "(\<forall>svc. Op c = AddServiceOp \<and> Service c = Some svc \<longrightarrow>
           s' = AddService ?sid s svc
           \<and> map_of (Services s') = (map_of (Services s))(?sid svc \<mapsto> svc)
           \<and> Destinations s' = Destinations s)
     \<and> (\<forall>svc. Op c = DelServiceOp \<and> Service c = Some svc \<longrightarrow>
           s' = DeleteService ?sid s svc
           \<and> map_of (Services s') = (map_of (Services s))(?sid svc := None)
           \<and> Destinations s' = Destinations s)
     \<and> (\<forall>dst. Op c = AddDestinationOp \<and> Destination c = Some dst \<longrightarrow>
           s' = AddDestination ?did s dst
           \<and> map_of (Destinations s') = (map_of (Destinations s))(?did dst \<mapsto> dst)
           \<and> Services s' = Services s)
     \<and> (\<forall>dst. Op c = DelDestinationOp \<and> Destination c = Some dst \<longrightarrow>
           s' = DeleteDestination ?did s dst
           \<and> map_of (Destinations s') = (map_of (Destinations s))(?did dst := None)
           \<and> Services s' = Services s)
     \<and> (Op c \<noteq> 0 \<and> Op c \<noteq> 1 \<and> Op c \<noteq> 2 \<and> Op c \<noteq> 3 \<longrightarrow> s' = s)"
    by (simp add: state_methods_maps)
  from s' ops' r h show ?thesis
    using step_leaves_Recv[of _ w] step_blocked[of _ w] by (intro exI[of _ s']) (simp only: simp_thms, blast)
qed

text \<open>
  On a follower with an empty catalog, the entry that adds \<open>web\<close>: the catalog holds
  \<open>web\<close>, one request was published, the pass ran under the mutex, and \<^verbatim>\<open>Apply\<close>
  returns \<^verbatim>\<open>nil\<close>, the answer of \<^verbatim>\<open>SyncState\<close>.
\<close>

theorem Apply_publishes_once_and_returns_reply_witness:
  "json_Unmarshal follower_world (Data \<lparr>Data = ''add web''\<rparr>) = Inr add_web
   \<and> carries_payload add_web \<and> (5::nat) \<le> 5
   \<and> map_of (Services (AddService svc_Name NewFusisState web)) ''web'' = Some web
   \<and> run follower_world 5 (Apply NewFusisState \<lparr>Data = ''add web''\<rparr>) =
        Some \<lparr>State = AddService svc_Name NewFusisState web, fsm = Fsm_Return None,
              watch = Watch_Recv, published = 1,
              trace = [Ev_Lock, Ev_SyncState (AddService svc_Name NewFusisState web), Ev_Unlock]\<rparr>"
proof -
  have a: "json_Unmarshal follower_world (Data \<lparr>Data = ''add web''\<rparr>) = Inr add_web"
    by (simp add: follower_world_def leader_world_def)
  have b: "carries_payload add_web"
    by (simp add: carries_payload_def add_web_def)
  have c: "(5::nat) \<le> 5" by simp
  have d: "apply_Command (Service_GetId follower_world) (Destination_GetId follower_world)
             NewFusisState add_web = Inr (AddService svc_Name NewFusisState web)"
    by (simp add: apply_Command_def add_web_def follower_world_def leader_world_def)
  have e: "handleStateChange follower_world (AddService svc_Name NewFusisState web) =
             ([Ev_Lock, Ev_SyncState (AddService svc_Name NewFusisState web), Ev_Unlock], None)"
    by (simp add: handleStateChange_def follower_world_def leader_world_def)
  have f: "SyncState follower_world (AddService svc_Name NewFusisState web) = None"
    by (simp add: follower_world_def leader_world_def)
  have g: "map_of (Services (AddService svc_Name NewFusisState web)) ''web'' = Some web"
    by (simp add: AddService_def NewFusisState_def web_def)
  from Apply_publishes_once_and_returns_reply [OF a b c, of NewFusisState]
  obtain s' where
    "apply_Command (Service_GetId follower_world) (Destination_GetId follower_world)
       NewFusisState add_web = Inr s'"
    and "run follower_world 5 (Apply NewFusisState \<lparr>Data = ''add web''\<rparr>) =
         Some \<lparr>State = s', fsm = Fsm_Return (SyncState follower_world s'), watch = Watch_Recv,
               published = 1, trace = fst (handleStateChange follower_world s')\<rparr>"
    by (elim exE conjE)
  with d e f have "run follower_world 5 (Apply NewFusisState \<lparr>Data = ''add web''\<rparr>) =
        Some \<lparr>State = AddService svc_Name NewFusisState web, fsm = Fsm_Return None,
              watch = Watch_Recv, published = 1,
              trace = [Ev_Lock, Ev_SyncState (AddService svc_Name NewFusisState web), Ev_Unlock]\<rparr>"
    by simp
  with a b c g show ?thesis by (intro conjI)
qed

text \<open>
  C1 as stated fails on an entry that decodes to a Command without its Service: the
  record whose op is AddServiceOp and whose Service is \<^verbatim>\<open>nil\<close> makes \<^verbatim>\<open>AddService\<close>
  dereference \<^verbatim>\<open>nil\<close>, so \<^verbatim>\<open>Apply\<close> panics; no request is published and nothing is
  returned.
\<close>

theorem Apply_panics_on_missing_payload_counterexample:
  "json_Unmarshal leader_world (Data \<lparr>Data = ''add''\<rparr>) = Inr add_nothing
   \<and> Op add_nothing = AddServiceOp
   \<and> run leader_world 5 (Apply NewFusisState \<lparr>Data = ''add''\<rparr>) =
        Some \<lparr>State = NewFusisState, fsm = Fsm_Panic NilPointerDereference, watch = Watch_Recv,
              published = 0, trace = []\<rparr>"
  by (simp add: eval_nat_numeral step_def fsm_step_def Apply_def leader_world_def add_nothing_def
      apply_Command_def AddServiceOp_def)

text \<open>
  C10. When the data of a log entry does not decode, \<^verbatim>\<open>Apply\<close> panics with the decoder's
  message; when it decodes to a record without the Service or Destination its op works
  on, the state method dereferences \<^verbatim>\<open>nil\<close>. Either way \<^verbatim>\<open>Apply\<close> ends in a panic, not
  in a returned value, with the catalog as it was and nothing published.
\<close>

theorem Apply_panics_on_invalid_entry:
  assumes "2 \<le> n"
  shows "(\<forall>err. json_Unmarshal w (Data l) = Inl err \<longrightarrow>
            run w n (Apply s l) =
              Some \<lparr>State = s, fsm = Fsm_Panic (Panic (''failed to unmarshal command: '' @ err)),
                    watch = Watch_Recv, published = 0, trace = []\<rparr>)
     \<and> (\<forall>c. json_Unmarshal w (Data l) = Inr c \<and> \<not> carries_payload c \<longrightarrow>
            run w n (Apply s l) =
              Some \<lparr>State = s, fsm = Fsm_Panic NilPointerDereference,
                    watch = Watch_Recv, published = 0, trace = []\<rparr>)"
proof -
  from assms obtain m where n: "n = Suc (Suc m)" using fuel_2 by blast
  have stop: "run w n (Apply s l) = Some ((Apply s l)\<lparr>fsm := Fsm_Panic p\<rparr>)"
    if "step w (Apply s l) = Some ((Apply s l)\<lparr>fsm := Fsm_Panic p\<rparr>)" for p
  proof -
    have "run w n (Apply s l) = run w (Suc m) ((Apply s l)\<lparr>fsm := Fsm_Panic p\<rparr>)"
      unfolding n using that by (rule run_step)
    also have "\<dots> = Some ((Apply s l)\<lparr>fsm := Fsm_Panic p\<rparr>)"
      by (rule run_stop, rule step_panicked) (simp_all add: Apply_def)
    finally show ?thesis .
  qed
  show ?thesis
  proof (intro conjI allI impI)
    fix err assume "json_Unmarshal w (Data l) = Inl err"
    then have "step w (Apply s l) =
        Some ((Apply s l)\<lparr>fsm := Fsm_Panic (Panic (''failed to unmarshal command: '' @ err))\<rparr>)"
      by (simp add: step_Apply)
    from stop[OF this] show "run w n (Apply s l) =
        Some \<lparr>State = s, fsm = Fsm_Panic (Panic (''failed to unmarshal command: '' @ err)),
              watch = Watch_Recv, published = 0, trace = []\<rparr>"
      by (simp add: Apply_def)
  next
    fix c assume "json_Unmarshal w (Data l) = Inr c \<and> \<not> carries_payload c"
    then have "step w (Apply s l) = Some ((Apply s l)\<lparr>fsm := Fsm_Panic NilPointerDereference\<rparr>)"
      by (simp add: step_Apply apply_Command_no_payload)
    from stop[OF this] show "run w n (Apply s l) =
        Some \<lparr>State = s, fsm = Fsm_Panic NilPointerDereference,
              watch = Watch_Recv, published = 0, trace = []\<rparr>"
      by (simp add: Apply_def)
  qed
qed


text \<open>
  An entry that is no JSON, and an AddService record without a Service, on the catalog
  holding \<open>web\<close> and \<open>web_1\<close>.
\<close>

theorem Apply_panics_on_invalid_entry_witness:
  "(2::nat) \<le> 2
   \<and> json_Unmarshal leader_world (Data \<lparr>Data = ''{''\<rparr>) = Inl ''unexpected end of JSON input''
   \<and> run leader_world 2 (Apply web_catalog \<lparr>Data = ''{''\<rparr>) =
        Some \<lparr>State = web_catalog,
              fsm = Fsm_Panic (Panic ''failed to unmarshal command: unexpected end of JSON input''),
              watch = Watch_Recv, published = 0, trace = []\<rparr>
   \<and> json_Unmarshal leader_world (Data \<lparr>Data = ''add''\<rparr>) = Inr add_nothing
   \<and> \<not> carries_payload add_nothing
   \<and> run leader_world 2 (Apply web_catalog \<lparr>Data = ''add''\<rparr>) =
        Some \<lparr>State = web_catalog, fsm = Fsm_Panic NilPointerDereference,
              watch = Watch_Recv, published = 0, trace = []\<rparr>"
proof -
  have n: "(2::nat) \<le> 2" by simp
  have a: "json_Unmarshal leader_world (Data \<lparr>Data = ''{''\<rparr>) = Inl ''unexpected end of JSON input''"
    and b: "json_Unmarshal leader_world (Data \<lparr>Data = ''add''\<rparr>) = Inr add_nothing"
    by (simp_all add: leader_world_def)
  have c: "\<not> carries_payload add_nothing"
    by (simp add: carries_payload_def add_nothing_def)
  from Apply_panics_on_invalid_entry [OF n, of leader_world "\<lparr>Data = ''{''\<rparr>" web_catalog] a
  have "run leader_world 2 (Apply web_catalog \<lparr>Data = ''{''\<rparr>) =
        Some \<lparr>State = web_catalog,
              fsm = Fsm_Panic (Panic ''failed to unmarshal command: unexpected end of JSON input''),
              watch = Watch_Recv, published = 0, trace = []\<rparr>"
    by simp
  moreover
  from Apply_panics_on_invalid_entry [OF n, of leader_world "\<lparr>Data = ''add''\<rparr>" web_catalog] b c
  have "run leader_world 2 (Apply web_catalog \<lparr>Data = ''add''\<rparr>) =
        Some \<lparr>State = web_catalog, fsm = Fsm_Panic NilPointerDereference,
              watch = Watch_Recv, published = 0, trace = []\<rparr>"
    by simp
  ultimately show ?thesis using a b c by simp
qed

text \<open>
  C2, at an input where the code departs from it. On a leader whose interface refuses
  \<^verbatim>\<open>AddIp\<close>, the entry that adds \<open>web\<close> makes \<^verbatim>\<open>SyncVIPs\<close> return its compound error, and
  \<^verbatim>\<open>Apply\<close> returns \<^verbatim>\<open>nil\<close>: \<^verbatim>\<open>handleStateChange\<close> calls \<^verbatim>\<open>SyncVIPs\<close> as a statement and
  returns what \<^verbatim>\<open>SyncState\<close> returns.
\<close>

theorem Apply_ignores_SyncVIPs_error:
  "run leader_world 5 (Apply NewFusisState \<lparr>Data = ''add web''\<rparr>) =
     Some \<lparr>State = AddService svc_Name NewFusisState web, fsm = Fsm_Return None, watch = Watch_Recv,
           published = 1,
           trace = [Ev_Net (Call_GetFusisVipsIps ''eth0''), Ev_Net (Call_AddIp ''10.0.0.1/32'' ''eth0''),
                    Ev_Net (Call_DelIp ''10.0.0.9/32'' ''eth0''),
                    Ev_SyncState (AddService svc_Name NewFusisState web)]\<rparr>
   \<and> snd (SyncVIPs leader_world (AddService svc_Name NewFusisState web)) =
       Some (Errorf ''multiple errors: error adding ip 10.0.0.1: operation not permitted'')"
  by (simp add: eval_nat_numeral step_def fsm_step_def Apply_def leader_world_def add_web_def
      apply_Command_def AddServiceOp_def handleStateChange_def SyncVIPs_def GetServices_def
      getDestinations_def AddService_def NewFusisState_def web_def toAddMap_of_def
      add_errors_def del_errors_def Let_def)


section \<open>Properties of the leadership handler\<close>

lemma net_calls_append: "net_calls (xs @ ys) = net_calls xs @ net_calls ys"
  by (induction xs rule: net_calls.induct) simp_all

lemma net_calls_map_Ev_Net: "net_calls (map Ev_Net cs) = cs"
  by (induction cs) simp_all

lemma net_calls_flushVips: "net_calls (flushVips w) = [Call_DelVips (iface w)]"
  by (simp add: flushVips_def split: option.splits)

lemma net_calls_setVips: "net_calls (setVips w s) = fst (SyncVIPs w s)"
  by (simp add: setVips_def case_prod_unfold Let_def net_calls_append net_calls_map_Ev_Net split: option.splits)

lemma net_calls_leaderChange:
  "net_calls (leaderChange w s isLeader) =
     (if isLeader then Call_DelVips (iface w) # fst (SyncVIPs w s) else [Call_DelVips (iface w)])"
  by (simp add: leaderChange_def net_calls_append net_calls_flushVips net_calls_setVips)

lemma lock_run_append:
  "lock_run h (xs @ ys) = (case lock_run h xs of None \<Rightarrow> None | Some h' \<Rightarrow> lock_run h' ys)"
  by (induction h xs rule: lock_run.induct) simp_all

lemma lock_run_map_Ev_Net: "lock_run True (map Ev_Net cs) = Some True"
  by (induction cs) simp_all

lemma lock_run_flushVips: "lock_run True (flushVips w) = Some True"
  by (simp add: flushVips_def split: option.splits)

lemma lock_run_setVips: "lock_run True (setVips w s) = Some True"
  by (simp add: setVips_def case_prod_unfold Let_def lock_run_append lock_run_map_Ev_Net split: option.splits)

lemma lock_run_leaderChange: "lock_run False (leaderChange w s isLeader) = Some False"
  by (simp add: leaderChange_def lock_run_append lock_run_flushVips lock_run_setVips)

lemma leaderChange_calls_under_mutex:
  "net_calls (leaderChange w s True) = Call_DelVips (iface w) # fst (SyncVIPs w s)
   \<and> net_calls (leaderChange w s False) = [Call_DelVips (iface w)]
   \<and> lock_run False (leaderChange w s isLeader) = Some False
   \<and> lock_run False (watchLeaderChanges changes) = Some False
   \<and> net_calls (watchLeaderChanges changes) =
       concat (map (\<lambda>(isLeader, w, s). if isLeader then Call_DelVips (iface w) # fst (SyncVIPs w s)
                                         else [Call_DelVips (iface w)]) changes)"
proof -
  have a: "lock_run False (watchLeaderChanges changes) = Some False"
    by (induction changes rule: watchLeaderChanges.induct)
       (simp_all add: lock_run_append lock_run_leaderChange)
  have b: "net_calls (watchLeaderChanges changes) =
       concat (map (\<lambda>(isLeader, w, s). if isLeader then Call_DelVips (iface w) # fst (SyncVIPs w s)
                                         else [Call_DelVips (iface w)]) changes)"
    by (induction changes rule: watchLeaderChanges.induct)
       (simp_all add: net_calls_append net_calls_leaderChange)
  from a b show ?thesis
    by (simp add: net_calls_leaderChange lock_run_leaderChange)
qed

lemma flushVips_no_lock: "Ev_Lock \<notin> set (flushVips w) \<and> Ev_Unlock \<notin> set (flushVips w)"
  by (simp add: flushVips_def split: option.splits)

lemma setVips_no_lock: "Ev_Lock \<notin> set (setVips w s) \<and> Ev_Unlock \<notin> set (setVips w s)"
  by (auto simp: setVips_def Let_def case_prod_unfold split: option.splits)

lemma leaderChange_critical_section:
  "\<exists>body. leaderChange w s isLeader = Ev_Lock # body @ [Ev_Unlock]
     \<and> Ev_Lock \<notin> set body \<and> Ev_Unlock \<notin> set body
     \<and> net_calls body = (if isLeader then Call_DelVips (iface w) # fst (SyncVIPs w s)
                          else [Call_DelVips (iface w)])"
proof -
  let ?body = "if isLeader then flushVips w @ setVips w s else flushVips w"
  have "leaderChange w s isLeader = Ev_Lock # ?body @ [Ev_Unlock]"
    by (simp add: leaderChange_def)
  moreover have "Ev_Lock \<notin> set ?body \<and> Ev_Unlock \<notin> set ?body"
    using flushVips_no_lock[of w] setVips_no_lock[of w s] by simp
  moreover have "net_calls ?body = (if isLeader then Call_DelVips (iface w) # fst (SyncVIPs w s)
                          else [Call_DelVips (iface w)])"
    by (simp add: net_calls_append net_calls_flushVips net_calls_setVips)
  ultimately show ?thesis by blast
qed

lemma mutex_allows_skip:
  "e \<noteq> Ev_Lock \<Longrightarrow> e \<noteq> Ev_Unlock \<Longrightarrow> mutex_allows h (e # es) = mutex_allows h es"
  by (cases e) simp_all

lemma shuffle_while_held:
  assumes "zs \<in> shuffles (map (Pair g) (b @ [Ev_Unlock])) ((g', Ev_Lock) # ys)"
    and "mutex_allows True (map snd zs)"
    and "Ev_Lock \<notin> set b" and "Ev_Unlock \<notin> set b"
  shows "zs = map (Pair g) (b @ [Ev_Unlock]) @ (g', Ev_Lock) # ys"
  using assms
proof (induction b arbitrary: zs)
  case Nil
  then show ?case by auto
next
  case (Cons e b)
  from Cons.prems(1) consider
      zs' where "zs = (g, e) # zs'" "zs' \<in> shuffles (map (Pair g) (b @ [Ev_Unlock])) ((g', Ev_Lock) # ys)"
    | zs' where "zs = (g', Ev_Lock) # zs'"
    by auto
  then show ?case
  proof cases
    case 1
    from Cons.prems(3,4) have ne: "e \<noteq> Ev_Lock" "e \<noteq> Ev_Unlock" by auto
    from Cons.prems(2) 1(1) have "mutex_allows True (map snd zs')"
      by (simp add: mutex_allows_skip[OF ne])
    with Cons.IH[OF 1(2)] Cons.prems(3,4) 1(1) show ?thesis by simp
  next
    case 2
    with Cons.prems(2) show ?thesis by simp
  qed
qed

lemma critical_sections_do_not_interleave:
  assumes "zs \<in> shuffles (map (Pair g) (Ev_Lock # b @ [Ev_Unlock])) (map (Pair g') (Ev_Lock # b' @ [Ev_Unlock]))"
    and "mutex_allows False (map snd zs)"
    and "Ev_Lock \<notin> set b" and "Ev_Unlock \<notin> set b"
    and "Ev_Lock \<notin> set b'" and "Ev_Unlock \<notin> set b'"
  shows "zs = map (Pair g) (Ev_Lock # b @ [Ev_Unlock]) @ map (Pair g') (Ev_Lock # b' @ [Ev_Unlock])
       \<or> zs = map (Pair g') (Ev_Lock # b' @ [Ev_Unlock]) @ map (Pair g) (Ev_Lock # b @ [Ev_Unlock])"
proof -
  from assms(1) consider
      zs' where "zs = (g, Ev_Lock) # zs'"
        "zs' \<in> shuffles (map (Pair g) (b @ [Ev_Unlock])) ((g', Ev_Lock) # map (Pair g') (b' @ [Ev_Unlock]))"
    | zs' where "zs = (g', Ev_Lock) # zs'"
        "zs' \<in> shuffles (map (Pair g) (Ev_Lock # b @ [Ev_Unlock])) (map (Pair g') (b' @ [Ev_Unlock]))"
    by auto
  then show ?thesis
  proof cases
    case 1
    from assms(2) 1(1) have "mutex_allows True (map snd zs')" by simp
    from shuffle_while_held[OF 1(2) this assms(3,4)] 1(1) show ?thesis by simp
  next
    case 2
    from assms(2) 2(1) have h: "mutex_allows True (map snd zs')" by simp
    from 2(2) have "zs' \<in> shuffles (map (Pair g') (b' @ [Ev_Unlock])) ((g, Ev_Lock) # map (Pair g) (b @ [Ev_Unlock]))"
      by (simp add: shuffles_commutes)
    from shuffle_while_held[OF this h assms(5,6)] 2(1) show ?thesis by simp
  qed
qed

lemma watchLeaderChanges_concat:
  "watchLeaderChanges changes = concat (map (\<lambda>(isLeader, w, s). leaderChange w s isLeader) changes)"
  by (induction changes rule: watchLeaderChanges.induct) simp_all

lemma append_in_shuffles: "xs @ ys \<in> shuffles xs ys"
  by (induction xs) (simp_all add: Cons_in_shuffles_leftI)

text \<open>
  C7. One handling of a value of \<^verbatim>\<open>LeaderCh\<close> is a single critical section: it takes the
  Balancer's mutex first, releases it last, and neither locks nor unlocks in between.
  Inside, for \<^verbatim>\<open>true\<close> it calls \<^verbatim>\<open>DelVips\<close> on the interface and then makes the calls of
  \<^verbatim>\<open>SyncVIPs\<close> on the catalog of that moment; for \<^verbatim>\<open>false\<close> it calls \<^verbatim>\<open>DelVips\<close> and
  nothing else. The loop handles the values one after the other. And were two handlings
  run by two goroutines, every order of their events that the mutex allows is one whole
  handling followed by the other whole handling: the steps of a leader-won and a
  leader-lost handling cannot interleave.
\<close>

theorem leader_change_flush_then_sync:
  "(\<exists>body. leaderChange w s isLeader = Ev_Lock # body @ [Ev_Unlock]
       \<and> Ev_Lock \<notin> set body \<and> Ev_Unlock \<notin> set body
       \<and> net_calls body = (if isLeader then Call_DelVips (iface w) # fst (SyncVIPs w s)
                            else [Call_DelVips (iface w)]))
   \<and> net_calls (leaderChange w s True) = Call_DelVips (iface w) # fst (SyncVIPs w s)
   \<and> net_calls (leaderChange w s False) = [Call_DelVips (iface w)]
   \<and> lock_run False (leaderChange w s isLeader) = Some False
   \<and> watchLeaderChanges changes = concat (map (\<lambda>(isLeader, w, s). leaderChange w s isLeader) changes)
   \<and> lock_run False (watchLeaderChanges changes) = Some False
   \<and> net_calls (watchLeaderChanges changes) =
       concat (map (\<lambda>(isLeader, w, s). if isLeader then Call_DelVips (iface w) # fst (SyncVIPs w s)
                                         else [Call_DelVips (iface w)]) changes)
   \<and> (\<forall>zs. zs \<in> shuffles (map (Pair g) (leaderChange w s isLeader))
                          (map (Pair g') (leaderChange w' s' isLeader'))
            \<and> mutex_allows False (map snd zs)
          \<longrightarrow> zs = map (Pair g) (leaderChange w s isLeader) @ map (Pair g') (leaderChange w' s' isLeader')
            \<or> zs = map (Pair g') (leaderChange w' s' isLeader') @ map (Pair g) (leaderChange w s isLeader))"
proof -
  have i: "zs = map (Pair g) (leaderChange w s isLeader) @ map (Pair g') (leaderChange w' s' isLeader')
            \<or> zs = map (Pair g') (leaderChange w' s' isLeader') @ map (Pair g) (leaderChange w s isLeader)"
    if a: "zs \<in> shuffles (map (Pair g) (leaderChange w s isLeader))
                          (map (Pair g') (leaderChange w' s' isLeader'))"
      and b: "mutex_allows False (map snd zs)" for zs
  proof -
    from leaderChange_critical_section[of w s isLeader] obtain body where
      1: "leaderChange w s isLeader = Ev_Lock # body @ [Ev_Unlock]"
      and 2: "Ev_Lock \<notin> set body" "Ev_Unlock \<notin> set body" by blast
    from leaderChange_critical_section[of w' s' isLeader'] obtain body' where
      3: "leaderChange w' s' isLeader' = Ev_Lock # body' @ [Ev_Unlock]"
      and 4: "Ev_Lock \<notin> set body'" "Ev_Unlock \<notin> set body'" by blast
    from a b show ?thesis
      unfolding 1 3 by (rule critical_sections_do_not_interleave[OF _ _ 2 4])
  qed
  from leaderChange_calls_under_mutex[of w s isLeader changes]
    leaderChange_critical_section[of w s isLeader] watchLeaderChanges_concat[of changes] i
  show ?thesis by (simp only: simp_thms) blast
qed

text \<open>
  Winning leadership with \<open>web\<close> in the catalog, in goroutine 1, and losing it, in
  goroutine 2: the won handling followed by the lost one is an order the mutex allows,
  and the calls are the flush, the three calls of \<^verbatim>\<open>SyncVIPs\<close>, and the flush of the loss.
\<close>

theorem leader_change_flush_then_sync_witness:
  "leaderChange leader_world (AddService svc_Name NewFusisState web) True =
     [Ev_Lock, Ev_Net (Call_DelVips ''eth0''), Ev_Net (Call_GetFusisVipsIps ''eth0''),
      Ev_Net (Call_AddIp ''10.0.0.1/32'' ''eth0''), Ev_Net (Call_DelIp ''10.0.0.9/32'' ''eth0''),
      Ev_LogError (Errorf ''multiple errors: error adding ip 10.0.0.1: operation not permitted''),
      Ev_Unlock]
   \<and> leaderChange follower_world (AddService svc_Name NewFusisState web) False =
     [Ev_Lock, Ev_Net (Call_DelVips ''eth0''), Ev_Unlock]
   \<and> map (Pair (1::nat)) (leaderChange leader_world (AddService svc_Name NewFusisState web) True)
       @ map (Pair 2) (leaderChange follower_world (AddService svc_Name NewFusisState web) False)
     \<in> shuffles (map (Pair 1) (leaderChange leader_world (AddService svc_Name NewFusisState web) True))
                 (map (Pair 2) (leaderChange follower_world (AddService svc_Name NewFusisState web) False))
   \<and> mutex_allows False (map snd
       (map (Pair (1::nat)) (leaderChange leader_world (AddService svc_Name NewFusisState web) True)
        @ map (Pair 2) (leaderChange follower_world (AddService svc_Name NewFusisState web) False)))
   \<and> net_calls (watchLeaderChanges
       [(True, leader_world, AddService svc_Name NewFusisState web),
        (False, follower_world, AddService svc_Name NewFusisState web)]) =
     [Call_DelVips ''eth0'', Call_GetFusisVipsIps ''eth0'', Call_AddIp ''10.0.0.1/32'' ''eth0'',
      Call_DelIp ''10.0.0.9/32'' ''eth0'', Call_DelVips ''eth0'']"
proof -
  let ?s = "AddService svc_Name NewFusisState web"
  have sv: "SyncVIPs leader_world ?s =
      ([Call_GetFusisVipsIps ''eth0'', Call_AddIp ''10.0.0.1/32'' ''eth0'',
        Call_DelIp ''10.0.0.9/32'' ''eth0''],
       Some (Errorf ''multiple errors: error adding ip 10.0.0.1: operation not permitted''))"
    by (simp add: SyncVIPs_def leader_world_def GetServices_def getDestinations_def AddService_def
        NewFusisState_def web_def toAddMap_of_def add_errors_def del_errors_def Let_def)
  have i: "iface leader_world = ''eth0''" "iface follower_world = ''eth0''"
    "DelVips leader_world ''eth0'' = None" "DelVips follower_world ''eth0'' = None"
    by (simp_all add: follower_world_def leader_world_def)
  have t1: "leaderChange leader_world ?s True =
     [Ev_Lock, Ev_Net (Call_DelVips ''eth0''), Ev_Net (Call_GetFusisVipsIps ''eth0''),
      Ev_Net (Call_AddIp ''10.0.0.1/32'' ''eth0''), Ev_Net (Call_DelIp ''10.0.0.9/32'' ''eth0''),
      Ev_LogError (Errorf ''multiple errors: error adding ip 10.0.0.1: operation not permitted''),
      Ev_Unlock]"
    by (simp add: leaderChange_def flushVips_def setVips_def sv i)
  have t2: "leaderChange follower_world ?s False = [Ev_Lock, Ev_Net (Call_DelVips ''eth0''), Ev_Unlock]"
    by (simp add: leaderChange_def flushVips_def i)
  have sh: "map (Pair (1::nat)) (leaderChange leader_world ?s True)
       @ map (Pair 2) (leaderChange follower_world ?s False)
     \<in> shuffles (map (Pair 1) (leaderChange leader_world ?s True))
                 (map (Pair 2) (leaderChange follower_world ?s False))"
    by (rule append_in_shuffles)
  have mu: "mutex_allows False (map snd
       (map (Pair (1::nat)) (leaderChange leader_world ?s True)
        @ map (Pair 2) (leaderChange follower_world ?s False)))"
    unfolding t1 t2 by simp
  note T = leader_change_flush_then_sync
      [where w=leader_world and s="?s" and isLeader=True
         and changes="[(True, leader_world, ?s), (False, follower_world, ?s)]"
         and g="1::nat" and g'="2::nat" and w'=follower_world and s'="?s" and isLeader'=False]
  have "net_calls (watchLeaderChanges [(True, leader_world, ?s), (False, follower_world, ?s)]) =
       concat (map (\<lambda>(isLeader, w, s). if isLeader then Call_DelVips (iface w) # fst (SyncVIPs w s)
                                         else [Call_DelVips (iface w)])
                   [(True, leader_world, ?s), (False, follower_world, ?s)])"
    by (rule T [THEN conjunct2, THEN conjunct2, THEN conjunct2, THEN conjunct2, THEN conjunct2,
                THEN conjunct2, THEN conjunct1])
  then have nc: "net_calls (watchLeaderChanges [(True, leader_world, ?s), (False, follower_world, ?s)]) =
     [Call_DelVips ''eth0'', Call_GetFusisVipsIps ''eth0'', Call_AddIp ''10.0.0.1/32'' ''eth0'',
      Call_DelIp ''10.0.0.9/32'' ''eth0'', Call_DelVips ''eth0'']"
    by (simp add: sv i)
  from t1 t2 sh mu nc show ?thesis by (intro conjI)
qed

section \<open>Properties of Leave and Shutdown\<close>

declare wait_removed.simps [simp del]

lemma wait_removed_stop:
  "\<not> (numPeers > 0 \<and> now < limit) \<Longrightarrow> wait_removed cl limit now k numPeers = ([], numPeers, now)"
  by (subst wait_removed.simps) auto

lemma poll_arith:
  assumes "(p::nat) * 50 \<le> limit - (now + t + 50) + 49" and "now < limit"
  shows "Suc p * 50 \<le> limit - now + 49"
proof (cases "now + t + 50 \<le> limit")
  case True
  with assms show ?thesis by simp
next
  case False
  with assms(1) have "p * 50 \<le> 49" by simp
  then have "p = 0" by (cases p) simp_all
  with assms(2) show ?thesis by simp
qed

lemma wait_removed_error:
  "numPeers > 0 \<Longrightarrow> now < limit \<Longrightarrow> numOtherPeers cl k = Inl err \<Longrightarrow>
   wait_removed cl limit now k numPeers = ([L_Peers], 0, now + Peers_took cl k)"
  by (subst wait_removed.simps) simp

lemma wait_removed_done:
  "numPeers > 0 \<Longrightarrow> now < limit \<Longrightarrow> numOtherPeers cl k = Inr 0 \<Longrightarrow>
   wait_removed cl limit now k numPeers = ([L_Peers], 0, now + Peers_took cl k)"
  by (subst wait_removed.simps) simp

lemma wait_removed_again:
  "numPeers > 0 \<Longrightarrow> now < limit \<Longrightarrow> numOtherPeers cl k = Inr n \<Longrightarrow> n \<noteq> 0 \<Longrightarrow>
   wait_removed cl limit now k numPeers =
     (L_Peers # L_Sleep 50 # fst (wait_removed cl limit (now + Peers_took cl k + 50) (Suc k) n),
      snd (wait_removed cl limit (now + Peers_took cl k + 50) (Suc k) n))"
  by (subst wait_removed.simps) (simp add: case_prod_unfold)

lemma wait_removed_events:
  "set (fst (wait_removed cl limit now k n)) \<subseteq> {L_Peers, L_Sleep 50}"
proof (induction cl limit now k n rule: wait_removed.induct)
  case (1 cl limit now k numPeers)
  show ?case
  proof (cases "numPeers > 0 \<and> now < limit")
    case False
    then show ?thesis by (simp add: wait_removed_stop)
  next
    case True
    show ?thesis
    proof (cases "numOtherPeers cl k")
      case (Inl err)
      with True show ?thesis by (simp add: wait_removed_error)
    next
      case (Inr m)
      show ?thesis
      proof (cases "m = 0")
        case True
        with Inr \<open>numPeers > 0 \<and> now < limit\<close> show ?thesis by (simp add: wait_removed_done)
      next
        case False
        with "1.IH"[OF True Inr False] Inr True show ?thesis
          by (simp add: wait_removed_again)
      qed
    qed
  qed
qed

lemma wait_removed_polls:
  "length (filter (\<lambda>e. e = L_Peers) (fst (wait_removed cl limit now k n))) * 50 \<le> limit - now + 49"
proof (induction cl limit now k n rule: wait_removed.induct)
  case (1 cl limit now k numPeers)
  show ?case
  proof (cases "numPeers > 0 \<and> now < limit")
    case False
    then show ?thesis by (simp add: wait_removed_stop)
  next
    case True
    then have lt: "now < limit" by simp
    show ?thesis
    proof (cases "numOtherPeers cl k")
      case (Inl err)
      with True have "wait_removed cl limit now k numPeers = ([L_Peers], 0, now + Peers_took cl k)"
        by (simp add: wait_removed_error)
      with lt show ?thesis by simp
    next
      case (Inr m)
      show ?thesis
      proof (cases "m = 0")
        case True
        with Inr \<open>numPeers > 0 \<and> now < limit\<close>
        have "wait_removed cl limit now k numPeers = ([L_Peers], 0, now + Peers_took cl k)"
          by (simp add: wait_removed_done)
        with lt show ?thesis by simp
      next
        case False
        let ?rest = "fst (wait_removed cl limit (now + Peers_took cl k + 50) (Suc k) m)"
        have ih: "length (filter (\<lambda>e. e = L_Peers) ?rest) * 50 \<le> limit - (now + Peers_took cl k + 50) + 49"
          using "1.IH"[OF True Inr False] .
        have "fst (wait_removed cl limit now k numPeers) = L_Peers # L_Sleep 50 # ?rest"
          using True Inr False by (simp add: wait_removed_again)
        then have "length (filter (\<lambda>e. e = L_Peers) (fst (wait_removed cl limit now k numPeers)))
            = Suc (length (filter (\<lambda>e. e = L_Peers) ?rest))"
          by simp
        with poll_arith[OF ih lt] show ?thesis by simp
      qed
    qed
  qed
qed

lemma wait_removed_exit:
  "wait_removed cl limit now k n = (evs, n', now') \<Longrightarrow> n' = 0 \<or> limit \<le> now'"
proof (induction cl limit now k n arbitrary: evs n' now' rule: wait_removed.induct)
  case (1 cl limit now k numPeers)
  show ?case
  proof (cases "numPeers > 0 \<and> now < limit")
    case False
    with "1.prems" show ?thesis by (auto simp: wait_removed_stop)
  next
    case True
    show ?thesis
    proof (cases "numOtherPeers cl k")
      case (Inl err)
      with True "1.prems" show ?thesis by (simp add: wait_removed_error)
    next
      case (Inr m)
      show ?thesis
      proof (cases "m = 0")
        case True
        with Inr \<open>numPeers > 0 \<and> now < limit\<close> "1.prems" show ?thesis
          by (simp add: wait_removed_done)
      next
        case False
        obtain evs1 n1 now1 where r: "wait_removed cl limit (now + Peers_took cl k + 50) (Suc k) m = (evs1, n1, now1)"
          by (cases "wait_removed cl limit (now + Peers_took cl k + 50) (Suc k) m") auto
        with "1.prems" Inr True False have "n' = n1" "now' = now1"
          by (simp_all add: wait_removed_again)
        with "1.IH"[OF True Inr False r] show ?thesis by simp
      qed
    qed
  qed
qed

lemma Shutdown_trace:
  "(\<forall>p. L_RemovePeer p \<notin> set (Shutdown cl now))
   \<and> (\<forall>err. Peers cl 0 = Inl err \<longrightarrow>
         Shutdown cl now = [L_Peers, L_SerfShutdown, L_RaftShutdown]
            @ (if DevMode cl then [] else [L_StoreClose]) @ [L_SetPeers []])
   \<and> (\<forall>ps. Peers cl 0 = Inr ps \<and> raft_IsLeader cl \<longrightarrow>
         Shutdown cl now = [L_Peers, L_SerfLeave, L_SerfShutdown, L_RaftShutdown]
            @ (if DevMode cl then [] else [L_StoreClose]) @ [L_SetPeers []])
   \<and> (\<forall>ps. Peers cl 0 = Inr ps \<and> \<not> raft_IsLeader cl \<longrightarrow>
         (\<exists>wait n' now'.
            wait_removed cl (now + raftRemoveGracePeriod) now 1
              (length (ExcludePeer ps (LocalAddr cl))) = (wait, n', now')
            \<and> Shutdown cl now = [L_Peers, L_SerfLeave] @ wait @ [L_SerfShutdown, L_RaftShutdown]
                 @ (if DevMode cl then [] else [L_StoreClose]) @ [L_SetPeers []]
            \<and> set wait \<subseteq> {L_Peers, L_Sleep 50}
            \<and> length (filter (\<lambda>e. e = L_Peers) wait) \<le> 100
            \<and> (n' = 0 \<or> now + raftRemoveGracePeriod \<le> now')))"
proof (intro conjI allI impI)
  fix p
  have "set (Leave cl now) \<subseteq> {L_Peers, L_SerfLeave, L_Sleep 50}"
    using wait_removed_events[of cl "now + raftRemoveGracePeriod" now 1]
    by (auto simp: Leave_def split: sum.splits)
  then show "L_RemovePeer p \<notin> set (Shutdown cl now)"
    by (auto simp: Shutdown_def)
next
  fix err assume "Peers cl 0 = Inl err"
  then show "Shutdown cl now = [L_Peers, L_SerfShutdown, L_RaftShutdown]
            @ (if DevMode cl then [] else [L_StoreClose]) @ [L_SetPeers []]"
    by (simp add: Shutdown_def Leave_def numOtherPeers_def)
next
  fix ps assume "Peers cl 0 = Inr ps \<and> raft_IsLeader cl"
  then show "Shutdown cl now = [L_Peers, L_SerfLeave, L_SerfShutdown, L_RaftShutdown]
            @ (if DevMode cl then [] else [L_StoreClose]) @ [L_SetPeers []]"
    by (simp add: Shutdown_def Leave_def numOtherPeers_def)
next
  fix ps assume a: "Peers cl 0 = Inr ps \<and> \<not> raft_IsLeader cl"
  let ?n = "length (ExcludePeer ps (LocalAddr cl))"
  obtain wait n' now' where w: "wait_removed cl (now + raftRemoveGracePeriod) now 1 ?n = (wait, n', now')"
    by (cases "wait_removed cl (now + raftRemoveGracePeriod) now 1 ?n") auto
  have s: "Shutdown cl now = [L_Peers, L_SerfLeave] @ wait @ [L_SerfShutdown, L_RaftShutdown]
                 @ (if DevMode cl then [] else [L_StoreClose]) @ [L_SetPeers []]"
    using a w by (simp add: Shutdown_def Leave_def numOtherPeers_def)
  have e: "set wait \<subseteq> {L_Peers, L_Sleep 50}"
    using wait_removed_events[of cl "now + raftRemoveGracePeriod" now 1 ?n] w by simp
  have "length (filter (\<lambda>e. e = L_Peers) wait) * 50 \<le> raftRemoveGracePeriod + 49"
    using wait_removed_polls[of cl "now + raftRemoveGracePeriod" now 1 ?n] w by simp
  then have b: "length (filter (\<lambda>e. e = L_Peers) wait) \<le> 100"
    by (simp add: raftRemoveGracePeriod_def)
  from wait_removed_exit[OF w] have x: "n' = 0 \<or> now + raftRemoveGracePeriod \<le> now'" .
  from w s e b x show "\<exists>wait n' now'.
            wait_removed cl (now + raftRemoveGracePeriod) now 1
              (length (ExcludePeer ps (LocalAddr cl))) = (wait, n', now')
            \<and> Shutdown cl now = [L_Peers, L_SerfLeave] @ wait @ [L_SerfShutdown, L_RaftShutdown]
                 @ (if DevMode cl then [] else [L_StoreClose]) @ [L_SetPeers []]
            \<and> set wait \<subseteq> {L_Peers, L_Sleep 50}
            \<and> length (filter (\<lambda>e. e = L_Peers) wait) \<le> 100
            \<and> (n' = 0 \<or> now + raftRemoveGracePeriod \<le> now')"
    by blast
qed

lemma numOtherPeers_cases:
  "(numOtherPeers cl k = Inr 0) = (\<exists>ps. Peers cl k = Inr ps \<and> (\<forall>p\<in>set ps. p = LocalAddr cl))"
  "(\<exists>m>0. numOtherPeers cl k = Inr m) = (\<exists>ps. Peers cl k = Inr ps \<and> (\<exists>p\<in>set ps. p \<noteq> LocalAddr cl))"
  "(\<exists>e. numOtherPeers cl k = Inl e) = (\<exists>e. Peers cl k = Inl e)"
  by (auto simp: numOtherPeers_def ExcludePeer_def filter_empty_conv split: sum.splits)

lemma wait_removed_shape:
  assumes "n > 0" and "now < limit"
  shows "\<exists>r. (\<forall>i<r. now + (\<Sum>q<i. Peers_took cl (k + q) + 50) < limit
                  \<and> (\<exists>m>0. numOtherPeers cl (k + i) = Inr m))
     \<and> ((now + (\<Sum>q<r. Peers_took cl (k + q) + 50) < limit
          \<and> (numOtherPeers cl (k + r) = Inr 0 \<or> (\<exists>e. numOtherPeers cl (k + r) = Inl e))
          \<and> fst (wait_removed cl limit now k n) = concat (replicate r [L_Peers, L_Sleep 50]) @ [L_Peers])
        \<or> (limit \<le> now + (\<Sum>q<r. Peers_took cl (k + q) + 50)
          \<and> fst (wait_removed cl limit now k n) = concat (replicate r [L_Peers, L_Sleep 50])))"
  using assms
proof (induction cl limit now k n rule: wait_removed.induct)
  case (1 cl limit now k numPeers)
  then have T: "numPeers > 0 \<and> now < limit" by simp
  show ?case
  proof (cases "numOtherPeers cl k")
    case (Inl err)
    with T have "fst (wait_removed cl limit now k numPeers) = [L_Peers]"
      by (simp add: wait_removed_error)
    with Inl T show ?thesis by (intro exI[of _ 0]) simp
  next
    case (Inr m)
    show ?thesis
    proof (cases "m = 0")
      case True
      with Inr T have "fst (wait_removed cl limit now k numPeers) = [L_Peers]"
        by (simp add: wait_removed_done)
      with Inr True T show ?thesis by (intro exI[of _ 0]) simp
    next
      case False
      let ?now2 = "now + Peers_took cl k + 50"
      have w: "fst (wait_removed cl limit now k numPeers) =
          L_Peers # L_Sleep 50 # fst (wait_removed cl limit ?now2 (Suc k) m)"
        using T Inr False by (simp add: wait_removed_again)
      have shift: "now + (\<Sum>q<Suc i. Peers_took cl (k + q) + 50)
                 = ?now2 + (\<Sum>q<i. Peers_took cl (Suc k + q) + 50)" for i
        by (simp add: sum.lessThan_Suc_shift del: sum.lessThan_Suc)
      show ?thesis
      proof (cases "?now2 < limit")
        case False
        then have "wait_removed cl limit ?now2 (Suc k) m = ([], m, ?now2)"
          by (simp add: wait_removed_stop)
        with w have "fst (wait_removed cl limit now k numPeers) = concat (replicate 1 [L_Peers, L_Sleep 50])"
          by simp
        moreover have "limit \<le> now + (\<Sum>q<1. Peers_took cl (k + q) + 50)"
          using False by simp
        moreover have "\<forall>i<1. now + (\<Sum>q<i. Peers_took cl (k + q) + 50) < limit
                  \<and> (\<exists>m>0. numOtherPeers cl (k + i) = Inr m)"
          using T Inr \<open>m \<noteq> 0\<close> by simp
        ultimately show ?thesis by (intro exI[of _ 1]) blast
      next
        case True
        from "1.IH"[OF T Inr \<open>m \<noteq> 0\<close> _ True] \<open>m \<noteq> 0\<close>
        obtain r where
          a: "\<forall>i<r. ?now2 + (\<Sum>q<i. Peers_took cl (Suc k + q) + 50) < limit
                  \<and> (\<exists>m>0. numOtherPeers cl (Suc k + i) = Inr m)"
          and b: "(?now2 + (\<Sum>q<r. Peers_took cl (Suc k + q) + 50) < limit
            \<and> (numOtherPeers cl (Suc k + r) = Inr 0 \<or> (\<exists>e. numOtherPeers cl (Suc k + r) = Inl e))
            \<and> fst (wait_removed cl limit ?now2 (Suc k) m) = concat (replicate r [L_Peers, L_Sleep 50]) @ [L_Peers])
          \<or> (limit \<le> ?now2 + (\<Sum>q<r. Peers_took cl (Suc k + q) + 50)
            \<and> fst (wait_removed cl limit ?now2 (Suc k) m) = concat (replicate r [L_Peers, L_Sleep 50]))"
          by auto
        have a': "\<forall>i<Suc r. now + (\<Sum>q<i. Peers_took cl (k + q) + 50) < limit
                  \<and> (\<exists>m>0. numOtherPeers cl (k + i) = Inr m)"
        proof (intro allI impI)
          fix i assume "i < Suc r"
          show "now + (\<Sum>q<i. Peers_took cl (k + q) + 50) < limit
                  \<and> (\<exists>m>0. numOtherPeers cl (k + i) = Inr m)"
          proof (cases i)
            case 0
            with T Inr \<open>m \<noteq> 0\<close> show ?thesis by simp
          next
            case (Suc j)
            with \<open>i < Suc r\<close> have "j < r" by simp
            with a have "?now2 + (\<Sum>q<j. Peers_took cl (Suc k + q) + 50) < limit
                  \<and> (\<exists>m>0. numOtherPeers cl (Suc k + j) = Inr m)" by blast
            then show ?thesis unfolding Suc shift by simp
          qed
        qed
        have b': "(now + (\<Sum>q<Suc r. Peers_took cl (k + q) + 50) < limit
            \<and> (numOtherPeers cl (k + Suc r) = Inr 0 \<or> (\<exists>e. numOtherPeers cl (k + Suc r) = Inl e))
            \<and> fst (wait_removed cl limit now k numPeers) = concat (replicate (Suc r) [L_Peers, L_Sleep 50]) @ [L_Peers])
          \<or> (limit \<le> now + (\<Sum>q<Suc r. Peers_took cl (k + q) + 50)
            \<and> fst (wait_removed cl limit now k numPeers) = concat (replicate (Suc r) [L_Peers, L_Sleep 50]))"
          using b unfolding shift w by auto
        from a' b' show ?thesis by (intro exI[of _ "Suc r"]) blast
      qed
    qed
  qed
qed

text \<open>
  C9, as amended. \<^verbatim>\<open>Shutdown\<close> never asks the consensus layer to remove a peer. When the
  first reading of the peers fails, \<^verbatim>\<open>Leave\<close> returns at once, without leaving the gossip
  cluster. Otherwise the node leaves the gossip cluster first; a leader then goes on
  without waiting, and so does a node whose first reading shows no other peer. A node
  that is not the leader and saw another peer reads the peers again: as long as a
  reading shows another peer and the clock has not reached the limit of 5 s, it sleeps
  50 ms and reads again; it stops after the first reading that shows no other peer or
  fails, or when the clock has reached the limit, after at most 100 readings. In every
  case \<^verbatim>\<open>Shutdown\<close> then shuts gossip and consensus down, closes the store when there is
  one, and clears the peer list, in this order.
\<close>

theorem Shutdown_order:
  "(\<forall>p. L_RemovePeer p \<notin> set (Shutdown cl now))
   \<and> (\<forall>err. Peers cl 0 = Inl err \<longrightarrow>
         Shutdown cl now = [L_Peers, L_SerfShutdown, L_RaftShutdown]
            @ (if DevMode cl then [] else [L_StoreClose]) @ [L_SetPeers []])
   \<and> (\<forall>ps. Peers cl 0 = Inr ps \<and> raft_IsLeader cl \<longrightarrow>
         Shutdown cl now = [L_Peers, L_SerfLeave, L_SerfShutdown, L_RaftShutdown]
            @ (if DevMode cl then [] else [L_StoreClose]) @ [L_SetPeers []])
   \<and> (\<forall>ps. Peers cl 0 = Inr ps \<and> \<not> raft_IsLeader cl \<longrightarrow>
         (\<exists>wait.
            Shutdown cl now = [L_Peers, L_SerfLeave] @ wait @ [L_SerfShutdown, L_RaftShutdown]
                 @ (if DevMode cl then [] else [L_StoreClose]) @ [L_SetPeers []]
            \<and> length (filter (\<lambda>e. e = L_Peers) wait) \<le> 100
            \<and> ((\<forall>p\<in>set ps. p = LocalAddr cl) \<longrightarrow> wait = [])
            \<and> ((\<exists>p\<in>set ps. p \<noteq> LocalAddr cl) \<longrightarrow>
                 (\<exists>r. (\<forall>i<r. now + (\<Sum>q<i. Peers_took cl (1 + q) + 50) < now + 5000
                            \<and> (\<exists>ps'. Peers cl (1 + i) = Inr ps' \<and> (\<exists>p\<in>set ps'. p \<noteq> LocalAddr cl)))
                    \<and> ((now + (\<Sum>q<r. Peers_took cl (1 + q) + 50) < now + 5000
                          \<and> ((\<exists>ps'. Peers cl (1 + r) = Inr ps' \<and> (\<forall>p\<in>set ps'. p = LocalAddr cl))
                             \<or> (\<exists>e. Peers cl (1 + r) = Inl e))
                          \<and> wait = concat (replicate r [L_Peers, L_Sleep 50]) @ [L_Peers])
                        \<or> (now + 5000 \<le> now + (\<Sum>q<r. Peers_took cl (1 + q) + 50)
                          \<and> wait = concat (replicate r [L_Peers, L_Sleep 50])))))))"
proof (intro conjI allI impI)
  fix p
  from Shutdown_trace[of cl now] show "L_RemovePeer p \<notin> set (Shutdown cl now)" by blast
next
  fix err assume "Peers cl 0 = Inl err"
  with Shutdown_trace[of cl now] show "Shutdown cl now = [L_Peers, L_SerfShutdown, L_RaftShutdown]
            @ (if DevMode cl then [] else [L_StoreClose]) @ [L_SetPeers []]"
    by blast
next
  fix ps assume "Peers cl 0 = Inr ps \<and> raft_IsLeader cl"
  with Shutdown_trace[of cl now] show "Shutdown cl now = [L_Peers, L_SerfLeave, L_SerfShutdown, L_RaftShutdown]
            @ (if DevMode cl then [] else [L_StoreClose]) @ [L_SetPeers []]"
    by blast
next
  fix ps assume a: "Peers cl 0 = Inr ps \<and> \<not> raft_IsLeader cl"
  let ?n = "length (ExcludePeer ps (LocalAddr cl))"
  let ?limit = "now + raftRemoveGracePeriod"
  let ?wait = "fst (wait_removed cl ?limit now 1 ?n)"
  have lim: "?limit = now + 5000" by (simp add: raftRemoveGracePeriod_def)
  have s: "Shutdown cl now = [L_Peers, L_SerfLeave] @ ?wait @ [L_SerfShutdown, L_RaftShutdown]
                 @ (if DevMode cl then [] else [L_StoreClose]) @ [L_SetPeers []]"
    using a by (simp add: Shutdown_def Leave_def numOtherPeers_def)
  have "length (filter (\<lambda>e. e = L_Peers) ?wait) * 50 \<le> raftRemoveGracePeriod + 49"
    using wait_removed_polls[of cl ?limit now 1 ?n] by simp
  then have b: "length (filter (\<lambda>e. e = L_Peers) ?wait) \<le> 100"
    by (simp add: raftRemoveGracePeriod_def)
  have z: "?wait = []" if "\<forall>p\<in>set ps. p = LocalAddr cl"
  proof -
    from that have "?n = 0" by (simp add: ExcludePeer_def filter_empty_conv)
    then show ?thesis by (simp add: wait_removed_stop)
  qed
  have nz: "\<exists>r. (\<forall>i<r. now + (\<Sum>q<i. Peers_took cl (1 + q) + 50) < now + 5000
                            \<and> (\<exists>ps'. Peers cl (1 + i) = Inr ps' \<and> (\<exists>p\<in>set ps'. p \<noteq> LocalAddr cl)))
                    \<and> ((now + (\<Sum>q<r. Peers_took cl (1 + q) + 50) < now + 5000
                          \<and> ((\<exists>ps'. Peers cl (1 + r) = Inr ps' \<and> (\<forall>p\<in>set ps'. p = LocalAddr cl))
                             \<or> (\<exists>e. Peers cl (1 + r) = Inl e))
                          \<and> ?wait = concat (replicate r [L_Peers, L_Sleep 50]) @ [L_Peers])
                        \<or> (now + 5000 \<le> now + (\<Sum>q<r. Peers_took cl (1 + q) + 50)
                          \<and> ?wait = concat (replicate r [L_Peers, L_Sleep 50])))"
    if "\<exists>p\<in>set ps. p \<noteq> LocalAddr cl"
  proof -
    from that have "?n > 0" by (auto simp: ExcludePeer_def filter_empty_conv)
    moreover have "now < ?limit" by (simp add: raftRemoveGracePeriod_def)
    ultimately show ?thesis
      using wait_removed_shape[of ?n now ?limit cl 1]
      unfolding lim numOtherPeers_cases by simp
  qed
  from s b z nz show "\<exists>wait.
            Shutdown cl now = [L_Peers, L_SerfLeave] @ wait @ [L_SerfShutdown, L_RaftShutdown]
                 @ (if DevMode cl then [] else [L_StoreClose]) @ [L_SetPeers []]
            \<and> length (filter (\<lambda>e. e = L_Peers) wait) \<le> 100
            \<and> ((\<forall>p\<in>set ps. p = LocalAddr cl) \<longrightarrow> wait = [])
            \<and> ((\<exists>p\<in>set ps. p \<noteq> LocalAddr cl) \<longrightarrow>
                 (\<exists>r. (\<forall>i<r. now + (\<Sum>q<i. Peers_took cl (1 + q) + 50) < now + 5000
                            \<and> (\<exists>ps'. Peers cl (1 + i) = Inr ps' \<and> (\<exists>p\<in>set ps'. p \<noteq> LocalAddr cl)))
                    \<and> ((now + (\<Sum>q<r. Peers_took cl (1 + q) + 50) < now + 5000
                          \<and> ((\<exists>ps'. Peers cl (1 + r) = Inr ps' \<and> (\<forall>p\<in>set ps'. p = LocalAddr cl))
                             \<or> (\<exists>e. Peers cl (1 + r) = Inl e))
                          \<and> wait = concat (replicate r [L_Peers, L_Sleep 50]) @ [L_Peers])
                        \<or> (now + 5000 \<le> now + (\<Sum>q<r. Peers_took cl (1 + q) + 50)
                          \<and> wait = concat (replicate r [L_Peers, L_Sleep 50])))))"
    by (intro exI[of _ ?wait]) blast
qed

text \<open>
  A follower that the new leader removes after its second look: it leaves gossip,
  looks and sees the leader, sleeps, looks again and sees itself alone, and shuts down.
\<close>

theorem Shutdown_order_witness:
  "Peers follower_cluster 0 = Inr [''10.1.0.1:4382'', ''10.1.0.2:4382''] \<and> \<not> raft_IsLeader follower_cluster
   \<and> ''10.1.0.1:4382'' \<noteq> LocalAddr follower_cluster
   \<and> Peers follower_cluster 1 = Inr [''10.1.0.1:4382'', ''10.1.0.2:4382'']
   \<and> Peers follower_cluster 2 = Inr [LocalAddr follower_cluster]
   \<and> Shutdown follower_cluster 0 =
       [L_Peers, L_SerfLeave] @ (concat (replicate 1 [L_Peers, L_Sleep 50]) @ [L_Peers])
         @ [L_SerfShutdown, L_RaftShutdown, L_StoreClose, L_SetPeers []]
   \<and> L_RemovePeer (LocalAddr follower_cluster) \<notin> set (Shutdown follower_cluster 0)"
proof -
  have a: "Peers follower_cluster 0 = Inr [''10.1.0.1:4382'', ''10.1.0.2:4382'']"
    and b: "\<not> raft_IsLeader follower_cluster"
    and c: "''10.1.0.1:4382'' \<noteq> LocalAddr follower_cluster"
    and d: "Peers follower_cluster 1 = Inr [''10.1.0.1:4382'', ''10.1.0.2:4382'']"
    and e: "Peers follower_cluster 2 = Inr [LocalAddr follower_cluster]"
    by (simp_all add: follower_cluster_def)
  have t: "Shutdown follower_cluster 0 =
       [L_Peers, L_SerfLeave] @ (concat (replicate 1 [L_Peers, L_Sleep 50]) @ [L_Peers])
         @ [L_SerfShutdown, L_RaftShutdown, L_StoreClose, L_SetPeers []]"
    by (simp add: Shutdown_def Leave_def wait_removed.simps numOtherPeers_def follower_cluster_def
        ExcludePeer_def raftRemoveGracePeriod_def)
  have r: "L_RemovePeer (LocalAddr follower_cluster) \<notin> set (Shutdown follower_cluster 0)"
    by (rule Shutdown_order [of follower_cluster 0, THEN conjunct1, THEN spec])
  from a b c d e t r show ?thesis by (intro conjI)
qed

text \<open>
  C9 as stated fails on a leader: with another peer in the set and the local node
  still in it, \<^verbatim>\<open>Shutdown\<close> leaves gossip and shuts consensus down at once, with no
  further reading of the peers and no sleep.
\<close>

theorem leader_Shutdown_does_not_wait_counterexample:
  "raft_IsLeader leader_cluster
   \<and> Peers leader_cluster 0 = Inr [LocalAddr leader_cluster, ''10.1.0.2:4382'']
   \<and> numOtherPeers leader_cluster 0 = Inr 1
   \<and> Shutdown leader_cluster 0 =
       [L_Peers, L_SerfLeave, L_SerfShutdown, L_RaftShutdown, L_StoreClose, L_SetPeers []]"
  by (simp add: Shutdown_def Leave_def numOtherPeers_def leader_cluster_def ExcludePeer_def)


end
